theory Spec2Isabelle
  imports Main "HOL-Library.Sublist" "HOL-Library.AList" "HOL-Library.Char_ord"
    "HOL-Library.List_Lexorder"
begin

section \<open>Conversion of RWKV checkpoints: the key rewriter and the configuration builder\<close>

text \<open>
  The development embeds \<^verbatim>\<open>convert_rwkv_checkpoint_to_hf.py\<close>. A Python \<^verbatim>\<open>str\<close> is a
  \<^typ>\<open>string\<close>: a list of characters with code points below 256. On that range the
  decimal digits that \<^verbatim>\<open>\d\<close> matches are exactly \<^verbatim>\<open>0\<close> to \<^verbatim>\<open>9\<close>.
\<close>

subsection \<open>The string operations of Python that the script uses\<close>

text \<open>\<^verbatim>\<open>s.startswith(p)\<close> and \<^verbatim>\<open>s.endswith(p)\<close>.\<close>

definition startswith :: "string \<Rightarrow> string \<Rightarrow> bool" where
  "startswith s p = prefix p s"

definition endswith :: "string \<Rightarrow> string \<Rightarrow> bool" where
  "endswith s p = suffix p s"

text \<open>
  \<^verbatim>\<open>s.replace(old, new)\<close>: every occurrence of \<^verbatim>\<open>old\<close> is replaced, scanning from the left
  and resuming after each occurrence. With an empty \<^verbatim>\<open>old\<close> Python puts \<^verbatim>\<open>new\<close> before
  every character and at the end.
\<close>

function str_replace :: "string \<Rightarrow> string \<Rightarrow> string \<Rightarrow> string" where
  "str_replace [] new s = new @ concat (map (\<lambda>c. c # new) s)"
| "str_replace (x # old) new [] = []"
| "str_replace (x # old) new (c # cs) =
     (if prefix (x # old) (c # cs)
      then new @ str_replace (x # old) new (drop (length old) cs)
      else c # str_replace (x # old) new cs)"
  by pat_completeness auto
termination
  by (relation "measure (\<lambda>(old, new, s). length s)") auto

text \<open>\<^verbatim>\<open>sub in s\<close> on strings: \<^verbatim>\<open>sub\<close> occurs in \<^verbatim>\<open>s\<close> as a contiguous substring.\<close>

fun str_contains :: "string \<Rightarrow> string \<Rightarrow> bool" where
  "str_contains sub [] = (sub = [])"
| "str_contains sub (c # cs) = (prefix sub (c # cs) \<or> str_contains sub cs)"

text \<open>
  \<^verbatim>\<open>re.sub(r"blocks\.(\d+)\.LIT", r"blocks.\1.REPL", s)\<close> for a literal \<^verbatim>\<open>LIT\<close> without
  special characters. At a position of \<^verbatim>\<open>s\<close> the pattern matches when \<^verbatim>\<open>blocks.\<close> is
  followed by a non-empty run of digits and then by \<^verbatim>\<open>.LIT\<close>. The run is the longest one:
  \<^verbatim>\<open>\d+\<close> is greedy, and giving a digit back never helps, since the next pattern
  character \<^verbatim>\<open>\.\<close> is no digit. \<^verbatim>\<open>match_block\<close> returns the digits of group 1 and the
  text after the match.
\<close>

definition is_digit :: "char \<Rightarrow> bool" where
  "is_digit c = (c \<in> set ''0123456789'')"

definition match_block :: "string \<Rightarrow> string \<Rightarrow> (string \<times> string) option" where
  "match_block lit s =
     (if prefix ''blocks.'' s then
        (let t = drop 7 s;
             ds = takeWhile is_digit t;
             r = dropWhile is_digit t
         in if ds \<noteq> [] \<and> prefix (CHR ''.'' # lit) r
            then Some (ds, drop (Suc (length lit)) r)
            else None)
      else None)"

text \<open>
  The substitution scans from the left; after a match it resumes behind the match, and
  a character at which nothing matches is copied.
\<close>

function re_sub_blocks :: "string \<Rightarrow> string \<Rightarrow> string \<Rightarrow> string" where
  "re_sub_blocks lit repl [] = []"
| "re_sub_blocks lit repl (c # cs) =
     (case match_block lit (c # cs) of
        Some (ds, r) \<Rightarrow> ''blocks.'' @ ds @ ''.'' @ repl @ re_sub_blocks lit repl r
      | None \<Rightarrow> c # re_sub_blocks lit repl cs)"
  by pat_completeness auto
termination
proof (relation "measure (\<lambda>(lit, repl, s). length s)")
  show "wf (measure (\<lambda>(lit, repl, s). length s))"
    by simp
next
  fix lit repl :: string and c :: char and cs :: string and x2 ds r
  assume m: "match_block lit (c # cs) = Some x2" and x2: "(ds, r) = x2"
  have p: "prefix ''blocks.'' (c # cs)"
    using m by (simp add: match_block_def split: if_splits)
  have r: "r = drop (Suc (length lit)) (dropWhile is_digit (drop 7 (c # cs)))"
    using m x2 by (auto simp: match_block_def Let_def split: if_splits)
  have "length (dropWhile is_digit (drop 7 (c # cs))) \<le> length (drop 7 (c # cs))"
    by (rule length_dropWhile_le)
  moreover have "7 \<le> length (c # cs)"
    using p by (auto simp: prefix_def)
  ultimately have "length r < length (c # cs)"
    using r by simp
  then show "((lit, repl, r), lit, repl, c # cs) \<in> measure (\<lambda>(lit, repl, s). length s)"
    by simp
next
  fix lit repl :: string and c :: char and cs :: string
  show "((lit, repl, cs), lit, repl, c # cs) \<in> measure (\<lambda>(lit, repl, s). length s)"
    by simp
qed

subsection \<open>The key rewriter\<close>

text \<open>
  The body of the loop of \<^verbatim>\<open>convert_state_dict\<close> computes the new name of one key. Each
  step below is one statement of the source, in the source's order.
\<close>

definition rename_key :: "string \<Rightarrow> string" where
  "rename_key name0 =
     (let name1 = (if startswith name0 ''emb.''
                   then str_replace ''emb.'' ''embeddings.'' name0 else name0);
          name2 = (if startswith name1 ''blocks.0.ln0''
                   then str_replace ''blocks.0.ln0'' ''blocks.0.pre_ln'' name1 else name1);
          name3 = re_sub_blocks ''att'' ''attention'' name2;
          name4 = re_sub_blocks ''ffn'' ''feed_forward'' name3;
          name5 = (if endswith name4 ''.time_mix_k''
                   then str_replace ''.time_mix_k'' ''.time_mix_key'' name4 else name4);
          name6 = (if endswith name5 ''.time_mix_v''
                   then str_replace ''.time_mix_v'' ''.time_mix_value'' name5 else name5);
          name7 = (if endswith name6 ''.time_mix_r''
                   then str_replace ''.time_mix_r'' ''.time_mix_receptance'' name6 else name6)
      in if name7 \<noteq> ''head.weight'' then ''rwkv.'' @ name7 else name7)"

text \<open>
  The rules of the specification, in the specification's words, for the comparison with
  \<open>rename_key\<close>. Rules 1 and 2 rewrite a prefix of the key, rules 5 to 7 rewrite a suffix,
  and only that prefix or suffix. Rules 3 and 4 replace every segment
  \<^verbatim>\<open>blocks.N.att\<close> and \<^verbatim>\<open>blocks.N.ffn\<close>, which is the substitution above. Rule 8 prepends
  the module prefix unless the key is the output-head key.
\<close>

definition spec_prefix_rule :: "string \<Rightarrow> string \<Rightarrow> string \<Rightarrow> string" where
  "spec_prefix_rule old new s = (if prefix old s then new @ drop (length old) s else s)"

definition spec_suffix_rule :: "string \<Rightarrow> string \<Rightarrow> string \<Rightarrow> string" where
  "spec_suffix_rule old new s =
     (if suffix old s then take (length s - length old) s @ new else s)"

definition spec_rules_1_to_4 :: "string \<Rightarrow> string" where
  "spec_rules_1_to_4 k =
     re_sub_blocks ''ffn'' ''feed_forward''
       (re_sub_blocks ''att'' ''attention''
          (spec_prefix_rule ''blocks.0.ln0'' ''blocks.0.pre_ln''
             (spec_prefix_rule ''emb.'' ''embeddings.'' k)))"

definition spec_rename_key :: "string \<Rightarrow> string" where
  "spec_rename_key k =
     (let s = spec_suffix_rule ''.time_mix_r'' ''.time_mix_receptance''
                (spec_suffix_rule ''.time_mix_v'' ''.time_mix_value''
                   (spec_suffix_rule ''.time_mix_k'' ''.time_mix_key'' (spec_rules_1_to_4 k)))
      in if s = ''head.weight'' then s else ''rwkv.'' @ s)"

subsection \<open>The checkpoint and the rewriting loop\<close>

text \<open>
  A Python \<^verbatim>\<open>dict\<close> keeps its keys unique and in insertion order: it is an association
  list with distinct keys. \<^verbatim>\<open>d[k] = v\<close> overwrites the value of a key that is present,
  at its place, and appends a new key at the end, which is \<^const>\<open>AList.update\<close>.
  \<^verbatim>\<open>d.pop(k)\<close> removes the key and returns its value, and raises \<^verbatim>\<open>KeyError\<close> when the
  key is absent. Errors carry no message, except for the key or the variable they are
  about.
\<close>

type_synonym ('k, 'v) dict = "('k \<times> 'v) list"

datatype py_error = KeyError string | ValueError | UnboundLocalError string | TypeError

definition dict_pop :: "string \<Rightarrow> (string, 'v) dict \<Rightarrow> py_error + ('v \<times> (string, 'v) dict)" where
  "dict_pop k d =
     (case map_of d k of
        None \<Rightarrow> Inl (KeyError k)
      | Some v \<Rightarrow> Inr (v, AList.delete k d))"

text \<open>
  \<^verbatim>\<open>convert_state_dict\<close> takes a snapshot of the keys and, for each of them, pops the
  tensor, renames the key and stores the tensor under the new name, in the same
  dictionary. Tensors are opaque values of a type \<open>'w\<close>.
\<close>

fun convert_loop :: "string list \<Rightarrow> (string, 'w) dict \<Rightarrow> py_error + (string, 'w) dict" where
  "convert_loop [] state_dict = Inr state_dict"
| "convert_loop (name # names) state_dict =
     (case dict_pop name state_dict of
        Inl e \<Rightarrow> Inl e
      | Inr (weight, d) \<Rightarrow> convert_loop names (AList.update (rename_key name) weight d))"

definition convert_state_dict :: "(string, 'w) dict \<Rightarrow> py_error + (string, 'w) dict" where
  "convert_state_dict state_dict = convert_loop (map fst state_dict) state_dict"

subsection \<open>The configuration builder\<close>

definition NUM_HIDDEN_LAYERS_MAPPING :: "(string, int) dict" where
  "NUM_HIDDEN_LAYERS_MAPPING =
     [(''169M'', 12), (''430M'', 24), (''1B5'', 24), (''3B'', 32), (''7B'', 32), (''14B'', 40)]"

definition HIDEN_SIZE_MAPPING :: "(string, int) dict" where
  "HIDEN_SIZE_MAPPING =
     [(''169M'', 768), (''430M'', 1024), (''1B5'', 2048), (''3B'', 2560), (''7B'', 4096),
      (''14B'', 5120)]"

text \<open>\<^verbatim>\<open>m[k]\<close> on a dictionary raises \<^verbatim>\<open>KeyError\<close> for a missing key.\<close>

definition dict_get :: "(string, 'v) dict \<Rightarrow> string \<Rightarrow> py_error + 'v" where
  "dict_get m k = (case map_of m k of None \<Rightarrow> Inl (KeyError k) | Some v \<Rightarrow> Inr v)"

definition possible_sizes :: "string list" where
  "possible_sizes = map fst NUM_HIDDEN_LAYERS_MAPPING"

text \<open>
  The \<^verbatim>\<open>size\<close> argument is \<^verbatim>\<open>None\<close>, a tuple of two integers
  \<^verbatim>\<open>(num_hidden_layers, hidden_size)\<close>, or a label.
\<close>

datatype size_arg = SizeTuple int int | SizeStr string

record rwkv_config =
  vocab_size :: int
  num_hidden_layers :: int
  hidden_size :: int

text \<open>
  Step 1 of \<^verbatim>\<open>convert_rmkv_checkpoint_to_hf_format\<close>: the vocabulary size is 50277 without
  a tokenizer file, and the length of the tokenizer loaded from the file otherwise. The
  tokenizer comes from a library, so its length is a parameter \<open>tokenizer_len\<close>.
\<close>

definition tokenizer_vocab_size :: "(string \<Rightarrow> int) \<Rightarrow> string option \<Rightarrow> int" where
  "tokenizer_vocab_size tokenizer_len tokenizer_file =
     (case tokenizer_file of None \<Rightarrow> 50277 | Some f \<Rightarrow> tokenizer_len f)"

text \<open>
  The loop that infers the size from the name of the checkpoint file: the first
  candidate that occurs in the name is taken (\<^verbatim>\<open>break\<close>).
\<close>

fun infer_size :: "string list \<Rightarrow> string \<Rightarrow> string option" where
  "infer_size [] checkpoint_file = None"
| "infer_size (candidate # candidates) checkpoint_file =
     (if str_contains candidate checkpoint_file then Some candidate
      else infer_size candidates checkpoint_file)"

text \<open>
  Step 2, up to the construction of the configuration. With a tuple the two dimensions
  are unpacked from it. With a label that is not a known size the function raises
  \<^verbatim>\<open>ValueError\<close>; with a known label nothing is assigned, and reading
  \<^verbatim>\<open>num_hidden_layers\<close> for the call of \<^verbatim>\<open>RwkvConfig\<close> raises \<^verbatim>\<open>UnboundLocalError\<close>: the
  two assignments from the tables are inside the \<^verbatim>\<open>else\<close> branch. Without a size the
  label is inferred from the file name (\<^verbatim>\<open>candidate in None\<close> raises \<^verbatim>\<open>TypeError\<close> when
  there is no file name), and both dimensions are read from \<^verbatim>\<open>HIDEN_SIZE_MAPPING\<close>.
\<close>

definition build_config ::
  "(string \<Rightarrow> int) \<Rightarrow> string option \<Rightarrow> size_arg option \<Rightarrow> string option \<Rightarrow> py_error + rwkv_config"
where
  "build_config tokenizer_len checkpoint_file size' tokenizer_file =
     (let vocab = tokenizer_vocab_size tokenizer_len tokenizer_file in
      case size' of
        Some (SizeTuple nl hs) \<Rightarrow>
          Inr \<lparr>vocab_size = vocab, num_hidden_layers = nl, hidden_size = hs\<rparr>
      | Some (SizeStr label) \<Rightarrow>
          (if label \<notin> set possible_sizes then Inl ValueError
           else Inl (UnboundLocalError ''num_hidden_layers''))
      | None \<Rightarrow>
          (case checkpoint_file of
             None \<Rightarrow> Inl TypeError
           | Some file \<Rightarrow>
               (case infer_size possible_sizes file of
                  None \<Rightarrow> Inl ValueError
                | Some label \<Rightarrow>
                    (case dict_get HIDEN_SIZE_MAPPING label of
                       Inl e \<Rightarrow> Inl e
                     | Inr nl \<Rightarrow>
                         (case dict_get HIDEN_SIZE_MAPPING label of
                            Inl e \<Rightarrow> Inl e
                          | Inr hs \<Rightarrow>
                              Inr \<lparr>vocab_size = vocab, num_hidden_layers = nl,
                                   hidden_size = hs\<rparr>)))))"

text \<open>
  The command line: \<^verbatim>\<open>--size\<close> defaults to \<^verbatim>\<open>None\<close>, \<^verbatim>\<open>--hidden_size\<close> to 256 and
  \<^verbatim>\<open>--num_hidden_layers\<close> to 12. The main block passes the label when there is one and
  the tuple otherwise.
\<close>

record args =
  args_repo_id :: "string option"
  args_checkpoint_file :: "string option"
  args_model_file :: "string option"
  args_output_dir :: string
  args_tokenizer_file :: "string option"
  args_size :: "string option"
  args_hidden_size :: int
  args_num_hidden_layers :: int

definition main_size :: "args \<Rightarrow> size_arg" where
  "main_size a =
     (case args_size a of
        Some label \<Rightarrow> SizeStr label
      | None \<Rightarrow> SizeTuple (args_num_hidden_layers a) (args_hidden_size a))"

definition main_config :: "(string \<Rightarrow> int) \<Rightarrow> args \<Rightarrow> py_error + rwkv_config" where
  "main_config tokenizer_len a =
     build_config tokenizer_len (args_checkpoint_file a) (Some (main_size a))
       (args_tokenizer_file a)"

subsection \<open>The index file\<close>

text \<open>
  Modelled from the spec: the index that \<^verbatim>\<open>shard_checkpoint\<close> of
  \<^verbatim>\<open>transformers.modeling_utils\<close> returns is not among the sources. It is a JSON object
  that maps each parameter name to the shard file holding it (\<^verbatim>\<open>weight_map\<close>), plus the
  aggregate metadata, the total size (\<^verbatim>\<open>metadata\<close>, \<^verbatim>\<open>total_size\<close>).
\<close>

record shard_index =
  total_size :: int
  weight_map :: "(string, string) dict"

text \<open>
  Modelled from the spec: \<^verbatim>\<open>json.dumps\<close> of Python's standard library is not among the
  sources. The script calls it with \<^verbatim>\<open>indent=2\<close> and \<^verbatim>\<open>sort_keys=True\<close>: a JSON document,
  key-sorted and two-space indented. The pieces are the decimal form of an integer, a
  string literal in double quotes with the ASCII escapes of JSON, and an object with one
  member per line, the members sorted by key and indented by two spaces per level; an
  empty object is \<^verbatim>\<open>{}\<close>.
\<close>

function show_nat :: "nat \<Rightarrow> string" where
  "show_nat n =
     (if n < 10 then [char_of (48 + n)]
      else show_nat (n div 10) @ [char_of (48 + n mod 10)])"
  by pat_completeness auto
termination
  by (relation "measure id") auto

definition show_int :: "int \<Rightarrow> string" where
  "show_int i = (if i < 0 then CHR ''-'' # show_nat (nat (- i)) else show_nat (nat i))"

definition hex_char :: "nat \<Rightarrow> char" where
  "hex_char n = (if n < 10 then char_of (48 + n) else char_of (87 + n))"

definition json_escape :: "char \<Rightarrow> string" where
  "json_escape c =
     (let n = (of_char c :: nat) in
      if c = CHR 0x22 then [CHR 0x5C, CHR 0x22]
      else if c = CHR 0x5C then [CHR 0x5C, CHR 0x5C]
      else if c = CHR 0x0A then [CHR 0x5C, CHR ''n'']
      else if c = CHR 0x0D then [CHR 0x5C, CHR ''r'']
      else if c = CHR 0x09 then [CHR 0x5C, CHR ''t'']
      else if c = CHR 0x08 then [CHR 0x5C, CHR ''b'']
      else if c = CHR 0x0C then [CHR 0x5C, CHR ''f'']
      else if 32 \<le> n \<and> n \<le> 126 then [c]
      else [CHR 0x5C, CHR ''u'', CHR ''0'', CHR ''0'', hex_char (n div 16), hex_char (n mod 16)])"

definition json_string :: "string \<Rightarrow> string" where
  "json_string s = CHR 0x22 # concat (map json_escape s) @ [CHR 0x22]"

fun join :: "string \<Rightarrow> string list \<Rightarrow> string" where
  "join sep [] = []"
| "join sep [x] = x"
| "join sep (x # y # ys) = x @ sep @ join sep (y # ys)"

text \<open>
  Modelled from the spec: an object at a nesting level, from its members with their
  values already serialized.
\<close>

definition json_object :: "nat \<Rightarrow> (string, string) dict \<Rightarrow> string" where
  "json_object level items =
     (if items = [] then ''{}''
      else ''{'' @ [CHR 0x0A] @
           join ('','' @ [CHR 0x0A])
             (map (\<lambda>(k, v). replicate (2 * Suc level) CHR '' '' @ json_string k @ '': '' @ v)
                (sort_key fst items)) @
           [CHR 0x0A] @ replicate (2 * level) CHR '' '' @ ''}'')"

text \<open>
  Modelled from the spec: \<^verbatim>\<open>json.dumps(index, indent=2, sort_keys=True)\<close> on the index.
\<close>

definition json_dumps_index :: "shard_index \<Rightarrow> string" where
  "json_dumps_index index =
     json_object 0
       [(''metadata'', json_object 1 [(''total_size'', show_int (total_size index))]),
        (''weight_map'',
         json_object 1 (map (\<lambda>(k, f). (k, json_string f)) (weight_map index)))]"

text \<open>
  Step 4 of \<^verbatim>\<open>convert_rmkv_checkpoint_to_hf_format\<close>: when the index is not \<^verbatim>\<open>None\<close> the index
  file is opened for writing and receives the serialized index followed by a newline.
  The result is the content of the index file, \<open>None\<close> when no index file is written.
\<close>

definition index_file_content :: "shard_index option \<Rightarrow> string option" where
  "index_file_content index =
     (case index of
        None \<Rightarrow> None
      | Some i \<Rightarrow> Some (json_dumps_index i @ [CHR 0x0A]))"

section \<open>Properties\<close>

subsection \<open>Auxiliary facts\<close>

lemma possible_sizes_eq:
  "possible_sizes = [''169M'', ''430M'', ''1B5'', ''3B'', ''7B'', ''14B'']"
  by (simp add: possible_sizes_def NUM_HIDDEN_LAYERS_MAPPING_def)

lemma infer_size_find: "infer_size cs f = find (\<lambda>c. str_contains c f) cs"
  by (induction cs) simp_all

subsection \<open>Dictionaries and the rewriting loop\<close>

lemma update_fresh: "k \<notin> fst ` set al \<Longrightarrow> AList.update k v al = al @ [(k, v)]"
  by (induction al) auto




lemma snd_set_delete: "snd ` set (AList.delete k al) \<subseteq> snd ` set al"
  by (induction al) auto

lemma snd_set_update: "snd ` set (AList.update k v al) \<subseteq> insert v (snd ` set al)"
  by (induction al) auto

text \<open>The loop never raises when the names of the snapshot are distinct keys.\<close>

lemma convert_loop_total:
  "distinct names \<Longrightarrow> set names \<subseteq> fst ` set d \<Longrightarrow> distinct (map fst d) \<Longrightarrow>
   \<exists>out. convert_loop names d = Inr out \<and> distinct (map fst out)"
proof (induction names arbitrary: d)
  case Nil
  then show ?case by simp
next
  case (Cons name names)
  from Cons.prems obtain v where v: "map_of d name = Some v"
    by (cases "map_of d name") (auto simp: map_of_eq_None_iff)
  let ?d = "AList.update (rename_key name) v (AList.delete name d)"
  have pop: "dict_pop name d = Inr (v, AList.delete name d)"
    using v by (simp add: dict_pop_def)
  have "set names \<subseteq> fst ` set (AList.delete name d)"
  proof
    fix n assume n: "n \<in> set names"
    then have "n \<noteq> name" using Cons.prems(1) by auto
    moreover have "n \<in> fst ` set d" using n Cons.prems(2) by auto
    ultimately show "n \<in> fst ` set (AList.delete name d)"
      by (auto simp: AList.delete_eq)
  qed
  then have "set names \<subseteq> fst ` set ?d"
    by (auto simp: dom_update)
  moreover have "distinct (map fst ?d)"
    using Cons.prems(3) by (simp add: distinct_update distinct_delete)
  moreover have "distinct names"
    using Cons.prems(1) by simp
  ultimately have "\<exists>out. convert_loop names ?d = Inr out \<and> distinct (map fst out)"
    using Cons.IH [of ?d] by blast
  then show ?case
    using pop by simp
qed


lemma convert_loop_values:
  "convert_loop names d = Inr out \<Longrightarrow> snd ` set out \<subseteq> snd ` set d"
proof (induction names arbitrary: d)
  case Nil
  then show ?case by simp
next
  case (Cons name names)
  from Cons.prems obtain v where v: "map_of d name = Some v"
    and out: "convert_loop names (AList.update (rename_key name) v (AList.delete name d)) = Inr out"
    by (auto simp: dict_pop_def split: option.splits)
  have "v \<in> snd ` set d"
    using v by (metis map_of_SomeD image_eqI snd_conv)
  moreover have "snd ` set (AList.update (rename_key name) v (AList.delete name d))
      \<subseteq> insert v (snd ` set d)"
    using snd_set_update [of "rename_key name" v "AList.delete name d"]
      snd_set_delete [of name d] by blast
  moreover have "snd ` set out \<subseteq> snd ` set (AList.update (rename_key name) v (AList.delete name d))"
    using out by (rule Cons.IH)
  ultimately show ?case by blast
qed

lemma convert_loop_clash_free:
  assumes "distinct (map fst rest)"
    and "fst ` set rest \<inter> fst ` set fin = {}"
    and "sorted_wrt (\<lambda>a b. rename_key a \<noteq> b \<and> rename_key a \<noteq> rename_key b) (map fst rest)"
    and "rename_key ` fst ` set rest \<inter> fst ` set fin = {}"
  shows "convert_loop (map fst rest) (rest @ fin) =
           Inr (fin @ map (\<lambda>(k, v). (rename_key k, v)) rest)"
  using assms
proof (induction rest arbitrary: fin)
  case Nil
  then show ?case by simp
next
  case (Cons p rest)
  obtain k v where p: "p = (k, v)" by (cases p)
  have k1: "k \<notin> fst ` set rest" and k2: "k \<notin> fst ` set fin"
    using Cons.prems(1,2) p by auto
  have r1: "rename_key k \<notin> fst ` set rest" and r2: "rename_key k \<notin> fst ` set fin"
    and r3: "rename_key k \<notin> rename_key ` fst ` set rest"
    using Cons.prems(3,4) p by auto
  have "AList.delete k (rest @ fin) = rest @ fin"
    using k1 k2 by (intro delete_id) auto
  then have pop: "dict_pop k ((p # rest) @ fin) = Inr (v, rest @ fin)"
    using p by (simp add: dict_pop_def)
  have upd: "AList.update (rename_key k) v (rest @ fin) = rest @ (fin @ [(rename_key k, v)])"
    using r1 r2 update_fresh [of "rename_key k" "rest @ fin" v] by auto
  have "convert_loop (map fst rest) (rest @ (fin @ [(rename_key k, v)])) =
      Inr ((fin @ [(rename_key k, v)]) @ map (\<lambda>(k, v). (rename_key k, v)) rest)"
  proof (rule Cons.IH)
    show "distinct (map fst rest)" using Cons.prems(1) by simp
    show "fst ` set rest \<inter> fst ` set (fin @ [(rename_key k, v)]) = {}"
      using Cons.prems(2) r1 by auto
    show "sorted_wrt (\<lambda>a b. rename_key a \<noteq> b \<and> rename_key a \<noteq> rename_key b) (map fst rest)" using Cons.prems(3) by simp
    show "rename_key ` fst ` set rest \<inter> fst ` set (fin @ [(rename_key k, v)]) = {}"
      using Cons.prems(4) r3 by auto
  qed
  then show ?case
    using pop upd p by simp
qed


text \<open>
  Without a clash the loop moves every entry to the end under its new name: the result
  is the input with every key renamed, in the input's order.
\<close>

lemma convert_state_dict_clash_free:
  assumes "distinct (map fst d)"
    and "\<forall>i j. i < j \<and> j < length d \<longrightarrow>
           rename_key (fst (d ! i)) \<noteq> fst (d ! j) \<and>
           rename_key (fst (d ! i)) \<noteq> rename_key (fst (d ! j))"
  shows "convert_state_dict d = Inr (map (\<lambda>(k, v). (rename_key k, v)) d)"
proof -
  have "sorted_wrt (\<lambda>a b. rename_key a \<noteq> b \<and> rename_key a \<noteq> rename_key b) (map fst d)"
    unfolding sorted_wrt_iff_nth_less using assms(2) by simp
  then have "convert_loop (map fst d) (d @ []) = Inr ([] @ map (\<lambda>(k, v). (rename_key k, v)) d)"
    using assms(1) by (intro convert_loop_clash_free) simp_all
  then show ?thesis
    by (simp add: convert_state_dict_def)
qed

lemma convert_state_dict_total:
  assumes "distinct (map fst d)"
  shows "\<exists>out. convert_state_dict d = Inr out \<and> distinct (map fst out)"
  unfolding convert_state_dict_def
  by (rule convert_loop_total) (use assms in simp_all)

subsection \<open>The key rewriter on the keys of a checkpoint\<close>

lemma str_replace_keeps_char:
  "c \<in> set s \<Longrightarrow> (c \<in> set old \<Longrightarrow> c \<in> set new) \<Longrightarrow> c \<in> set (str_replace old new s)"
proof (induction old new s rule: str_replace.induct)
  case (1 new s)
  then show ?case by auto
next
  case (2 x old new)
  then show ?case by simp
next
  case (3 x old new c' cs)
  show ?case
  proof (cases "prefix (x # old) (c' # cs)")
    case True
    then have split: "c' # cs = (x # old) @ drop (length old) cs"
      by (auto simp: prefix_def)
    show ?thesis
    proof (cases "c \<in> set (x # old)")
      case True
      with 3 \<open>prefix (x # old) (c' # cs)\<close> show ?thesis by simp
    next
      case False
      then have "c \<in> set (drop (length old) cs)"
        using "3.prems"(1) split by (metis Un_iff set_append)
      with 3 True show ?thesis by simp
    qed
  next
    case False
    with 3 show ?thesis by auto
  qed
qed

lemma match_block_Some:
  assumes "match_block lit s = Some (ds, r)"
  shows "s = ''blocks.'' @ ds @ CHR ''.'' # lit @ r"
proof -
  from assms have p: "prefix ''blocks.'' s"
    by (simp add: match_block_def split: if_splits)
  then have s: "s = ''blocks.'' @ drop 7 s"
    by (auto simp: prefix_def)
  let ?t = "drop 7 s"
  from assms p have ds: "ds = takeWhile is_digit ?t"
    and q: "prefix (CHR ''.'' # lit) (dropWhile is_digit ?t)"
    and r: "r = drop (Suc (length lit)) (dropWhile is_digit ?t)"
    by (auto simp: match_block_def Let_def split: if_splits)
  from q r have "dropWhile is_digit ?t = (CHR ''.'' # lit) @ r"
    by (auto simp: prefix_def)
  then have "?t = ds @ (CHR ''.'' # lit) @ r"
    using ds takeWhile_dropWhile_id [of is_digit ?t] by simp
  with s show ?thesis
    by (metis append_Cons)
qed

lemma re_sub_blocks_keeps_char:
  "c \<in> set s \<Longrightarrow> (c \<in> set lit \<Longrightarrow> c \<in> set repl) \<Longrightarrow> c \<in> set (re_sub_blocks lit repl s)"
proof (induction lit repl s rule: re_sub_blocks.induct)
  case (1 lit repl)
  then show ?case by simp
next
  case (2 lit repl c' cs)
  show ?case
  proof (cases "match_block lit (c' # cs)")
    case None
    with 2 show ?thesis by auto
  next
    case (Some a)
    obtain ds r where a: "a = (ds, r)" by (cases a)
    have split: "c' # cs = ''blocks.'' @ ds @ CHR ''.'' # lit @ r"
      using Some a by (intro match_block_Some) simp
    have res: "re_sub_blocks lit repl (c' # cs) =
        ''blocks.'' @ ds @ ''.'' @ repl @ re_sub_blocks lit repl r"
      using Some a by simp
    have "c \<in> set ''blocks.'' \<or> c \<in> set ds \<or> c \<in> set lit \<or> c \<in> set r"
      using "2.prems"(1) unfolding split by auto
    then show ?thesis
      unfolding res using "2.IH"(2) [OF Some a[symmetric]] "2.prems"(2) by auto
  qed
qed

lemma re_sub_blocks_no_b:
  "CHR ''b'' \<notin> set s \<Longrightarrow> re_sub_blocks lit repl s = s"
proof (induction s)
  case Nil
  then show ?case by simp
next
  case (Cons c cs)
  then have "match_block lit (c # cs) = None"
    by (auto simp: match_block_def)
  with Cons show ?case by simp
qed

lemma time_mix_step_keeps_underscore:
  assumes "CHR ''_'' \<in> set old \<Longrightarrow> CHR ''_'' \<in> set new" and "CHR ''_'' \<in> set old"
    and "CHR ''_'' \<notin> set (if endswith s old then str_replace old new s else s)"
  shows "(if endswith s old then str_replace old new s else s) = s \<and> CHR ''_'' \<notin> set s"
proof (cases "endswith s old")
  case True
  then have "set old \<subseteq> set s"
    by (simp add: endswith_def set_mono_suffix)
  then have "CHR ''_'' \<in> set s"
    using assms(2) by blast
  then have "CHR ''_'' \<in> set (str_replace old new s)"
    using assms(1) by (rule str_replace_keeps_char)
  with True assms(3) show ?thesis
    by simp
next
  case False
  with assms(3) show ?thesis by simp
qed

lemma rename_key_head_weight_iff: "rename_key k = ''head.weight'' \<longleftrightarrow> k = ''head.weight''"
proof
  assume "k = ''head.weight''"
  moreover have "rename_key ''head.weight'' = ''head.weight''"
    by code_simp
  ultimately show "rename_key k = ''head.weight''"
    by simp
next
  assume r: "rename_key k = ''head.weight''"
  define name1 where "name1 = (if startswith k ''emb.''
                   then str_replace ''emb.'' ''embeddings.'' k else k)"
  define name2 where "name2 = (if startswith name1 ''blocks.0.ln0''
                   then str_replace ''blocks.0.ln0'' ''blocks.0.pre_ln'' name1 else name1)"
  define name3 where "name3 = re_sub_blocks ''att'' ''attention'' name2"
  define name4 where "name4 = re_sub_blocks ''ffn'' ''feed_forward'' name3"
  define name5 where "name5 = (if endswith name4 ''.time_mix_k''
                   then str_replace ''.time_mix_k'' ''.time_mix_key'' name4 else name4)"
  define name6 where "name6 = (if endswith name5 ''.time_mix_v''
                   then str_replace ''.time_mix_v'' ''.time_mix_value'' name5 else name5)"
  define name7 where "name7 = (if endswith name6 ''.time_mix_r''
                   then str_replace ''.time_mix_r'' ''.time_mix_receptance'' name6 else name6)"
  have "rename_key k = (if name7 \<noteq> ''head.weight'' then ''rwkv.'' @ name7 else name7)"
    unfolding rename_key_def Let_def name1_def name2_def name3_def name4_def name5_def
      name6_def name7_def ..
  with r have n7: "name7 = ''head.weight''"
    by (auto split: if_splits)
  then have "CHR ''_'' \<notin> set name7"
    by simp
  then have n6: "name7 = name6 \<and> CHR ''_'' \<notin> set name6"
    unfolding name7_def by (intro time_mix_step_keeps_underscore) simp_all
  then have n5: "name6 = name5 \<and> CHR ''_'' \<notin> set name5"
    unfolding name6_def by (intro time_mix_step_keeps_underscore) simp_all
  then have n4: "name5 = name4 \<and> CHR ''_'' \<notin> set name4"
    unfolding name5_def by (intro time_mix_step_keeps_underscore) simp_all
  have h4: "name4 = ''head.weight''"
    using n7 n6 n5 n4 by simp
  have "CHR ''b'' \<notin> set name3"
  proof
    assume "CHR ''b'' \<in> set name3"
    then have "CHR ''b'' \<in> set name4"
      unfolding name4_def by (rule re_sub_blocks_keeps_char) simp
    then show False by (simp add: h4)
  qed
  then have h3: "name3 = ''head.weight''"
    using h4 by (simp add: name4_def re_sub_blocks_no_b)
  have "CHR ''b'' \<notin> set name2"
  proof
    assume "CHR ''b'' \<in> set name2"
    then have "CHR ''b'' \<in> set name3"
      unfolding name3_def by (rule re_sub_blocks_keeps_char) simp
    then show False by (simp add: h3)
  qed
  then have h2: "name2 = ''head.weight''"
    using h3 by (simp add: name3_def re_sub_blocks_no_b)
  have "\<not> startswith name1 ''blocks.0.ln0''"
  proof
    assume s: "startswith name1 ''blocks.0.ln0''"
    then have "set ''blocks.0.ln0'' \<subseteq> set name1"
      by (simp only: startswith_def set_mono_prefix)
    then have "CHR ''b'' \<in> set name1"
      by simp
    then have "CHR ''b'' \<in> set (str_replace ''blocks.0.ln0'' ''blocks.0.pre_ln'' name1)"
      by (rule str_replace_keeps_char) simp
    then show False
      using s h2 by (simp add: name2_def)
  qed
  then have h1: "name1 = ''head.weight''"
    using h2 by (simp add: name2_def)
  have "\<not> startswith k ''emb.''"
  proof
    assume s: "startswith k ''emb.''"
    then have "set ''emb.'' \<subseteq> set k"
      by (simp only: startswith_def set_mono_prefix)
    then have "CHR ''m'' \<in> set k"
      by simp
    then have "CHR ''m'' \<in> set (str_replace ''emb.'' ''embeddings.'' k)"
      by (rule str_replace_keeps_char) simp
    then show False
      using s h1 by (simp add: name1_def)
  qed
  then show "k = ''head.weight''"
    using h1 by (simp add: name1_def)
qed

lemma re_sub_blocks_embeddings:
  "re_sub_blocks lit repl (''embeddings.'' @ t) = ''embeddings.'' @ re_sub_blocks lit repl t"
  by (simp add: match_block_def)

lemma str_replace_embeddings:
  "prefix ''embeddings.'' (str_replace (CHR ''.'' # CHR ''t'' # old) (CHR ''.'' # new) (''embeddings.'' @ t))"
  by simp

lemma rename_key_emb: "prefix ''rwkv.embeddings.'' (rename_key (''emb.'' @ rest))"
proof -
  define k where "k = ''emb.'' @ rest"
  define name1 where "name1 = (if startswith k ''emb.''
                   then str_replace ''emb.'' ''embeddings.'' k else k)"
  define name2 where "name2 = (if startswith name1 ''blocks.0.ln0''
                   then str_replace ''blocks.0.ln0'' ''blocks.0.pre_ln'' name1 else name1)"
  define name3 where "name3 = re_sub_blocks ''att'' ''attention'' name2"
  define name4 where "name4 = re_sub_blocks ''ffn'' ''feed_forward'' name3"
  define name5 where "name5 = (if endswith name4 ''.time_mix_k''
                   then str_replace ''.time_mix_k'' ''.time_mix_key'' name4 else name4)"
  define name6 where "name6 = (if endswith name5 ''.time_mix_v''
                   then str_replace ''.time_mix_v'' ''.time_mix_value'' name5 else name5)"
  define name7 where "name7 = (if endswith name6 ''.time_mix_r''
                   then str_replace ''.time_mix_r'' ''.time_mix_receptance'' name6 else name6)"
  have run: "rename_key k = (if name7 \<noteq> ''head.weight'' then ''rwkv.'' @ name7 else name7)"
    unfolding rename_key_def Let_def name1_def name2_def name3_def name4_def name5_def
      name6_def name7_def ..
  have keep: "prefix ''embeddings.''
        (if endswith s (CHR ''.'' # CHR ''t'' # old)
         then str_replace (CHR ''.'' # CHR ''t'' # old) (CHR ''.'' # new) s else s)"
    if "prefix ''embeddings.'' s" for s old new
  proof -
    from that obtain t where "s = ''embeddings.'' @ t"
      by (auto simp: prefix_def)
    then show ?thesis
      using str_replace_embeddings [of old new t] by simp
  qed
  have sub: "prefix ''embeddings.'' (re_sub_blocks lit repl s)"
    if "prefix ''embeddings.'' s" for s lit repl
  proof -
    from that obtain t where "s = ''embeddings.'' @ t"
      by (auto simp: prefix_def)
    then show ?thesis
      by (simp only: re_sub_blocks_embeddings) simp
  qed
  have "name1 = ''embeddings.'' @ str_replace ''emb.'' ''embeddings.'' rest"
    by (simp add: name1_def k_def startswith_def)
  then have p1: "prefix ''embeddings.'' name1"
    by simp
  then have "\<not> startswith name1 ''blocks.0.ln0''"
    by (auto simp: startswith_def prefix_def)
  then have "name2 = name1"
    by (simp add: name2_def)
  with p1 have "prefix ''embeddings.'' name2"
    by simp
  then have "prefix ''embeddings.'' name3"
    unfolding name3_def by (rule sub)
  then have "prefix ''embeddings.'' name4"
    unfolding name4_def by (rule sub)
  then have "prefix ''embeddings.'' name5"
    unfolding name5_def by (rule keep)
  then have "prefix ''embeddings.'' name6"
    unfolding name6_def by (rule keep)
  then have "prefix ''embeddings.'' name7"
    unfolding name7_def by (rule keep)
  then obtain t where "name7 = ''embeddings.'' @ t"
    by (auto simp: prefix_def)
  with run show ?thesis
    by (simp add: k_def)
qed

lemma match_block_at_head:
  assumes "ds \<noteq> []" and "\<forall>c\<in>set ds. is_digit c"
  shows "match_block lit (''blocks.'' @ ds @ CHR ''.'' # t) =
     (if prefix lit t then Some (ds, drop (length lit) t) else None)"
proof -
  have nd: "\<not> is_digit CHR ''.''"
    by (simp add: is_digit_def)
  have tw: "takeWhile is_digit (ds @ CHR ''.'' # t) = ds"
    using assms(2) nd by (simp add: takeWhile_append2)
  have dw: "dropWhile is_digit (ds @ CHR ''.'' # t) = CHR ''.'' # t"
    using assms(2) nd by (simp add: dropWhile_append2)
  show ?thesis
    using assms(1) by (simp add: match_block_def tw dw)
qed

lemma str_replace_skip:
  "CHR ''.'' \<notin> set pre \<Longrightarrow>
   str_replace (CHR ''.'' # old) new (pre @ s) = pre @ str_replace (CHR ''.'' # old) new s"
  by (induction pre) auto

lemma re_sub_blocks_match:
  "match_block lit s = Some (ds, r) \<Longrightarrow>
   re_sub_blocks lit repl s = ''blocks.'' @ ds @ ''.'' @ repl @ re_sub_blocks lit repl r"
proof (cases s)
  case Nil
  moreover assume "match_block lit s = Some (ds, r)"
  ultimately show ?thesis
    by (simp add: match_block_def)
next
  case (Cons c cs)
  moreover assume "match_block lit s = Some (ds, r)"
  ultimately show ?thesis
    by simp
qed

lemma re_sub_blocks_no_match:
  "match_block lit (c # cs) = None \<Longrightarrow>
   re_sub_blocks lit repl (c # cs) = c # re_sub_blocks lit repl cs"
  by simp

lemma digits_no_dot:
  assumes "\<forall>c\<in>set ds. is_digit c"
  shows "CHR ''.'' \<notin> set ds"
proof
  assume "CHR ''.'' \<in> set ds"
  with assms have "is_digit CHR ''.''"
    by blast
  then show False
    by (simp add: is_digit_def)
qed

lemma digits_no_b:
  assumes "\<forall>c\<in>set ds. is_digit c"
  shows "CHR ''b'' \<notin> set ds"
proof
  assume "CHR ''b'' \<in> set ds"
  with assms have "is_digit CHR ''b''"
    by blast
  then show False
    by (simp add: is_digit_def)
qed

lemma digits_not_ln0:
  assumes "ds \<noteq> []" and "\<forall>c\<in>set ds. is_digit c"
  shows "\<not> prefix ''0.ln0'' (ds @ CHR ''.'' # CHR ''a'' # t)"
proof
  assume "prefix ''0.ln0'' (ds @ CHR ''.'' # CHR ''a'' # t)"
  then obtain z where z: "ds @ CHR ''.'' # CHR ''a'' # t = ''0.ln0'' @ z"
    by (auto simp: prefix_def)
  obtain d ds' where ds: "ds = d # ds'"
    using assms(1) by (cases ds) auto
  show False
  proof (cases ds')
    case Nil
    with z ds show False by simp
  next
    case (Cons e es)
    then have "is_digit e"
      using assms(2) ds by simp
    moreover have "e = CHR ''.''"
      using z ds Cons by simp
    ultimately show False
      by (simp add: is_digit_def)
  qed
qed

lemma str_replace_dot_digit:
  assumes "is_digit d"
  shows "str_replace (CHR ''.'' # CHR ''t'' # old) new (CHR ''.'' # d # s) =
     CHR ''.'' # str_replace (CHR ''.'' # CHR ''t'' # old) new (d # s)"
proof -
  have "d \<noteq> CHR ''t''"
    using assms by (auto simp: is_digit_def)
  then have "\<not> prefix (CHR ''.'' # CHR ''t'' # old) (CHR ''.'' # d # s)"
    by auto
  then show ?thesis
    by (simp only: str_replace.simps if_False)
qed

lemma rename_key_block_att_time_mix_k:
  assumes "ds \<noteq> []" and "\<forall>c\<in>set ds. is_digit c"
  shows "rename_key (''blocks.'' @ ds @ ''.att.time_mix_k'') =
     ''rwkv.blocks.'' @ ds @ ''.attention.time_mix_key''"
proof -
  define k where "k = ''blocks.'' @ ds @ ''.att.time_mix_k''"
  define name1 where "name1 = (if startswith k ''emb.''
                   then str_replace ''emb.'' ''embeddings.'' k else k)"
  define name2 where "name2 = (if startswith name1 ''blocks.0.ln0''
                   then str_replace ''blocks.0.ln0'' ''blocks.0.pre_ln'' name1 else name1)"
  define name3 where "name3 = re_sub_blocks ''att'' ''attention'' name2"
  define name4 where "name4 = re_sub_blocks ''ffn'' ''feed_forward'' name3"
  define name5 where "name5 = (if endswith name4 ''.time_mix_k''
                   then str_replace ''.time_mix_k'' ''.time_mix_key'' name4 else name4)"
  define name6 where "name6 = (if endswith name5 ''.time_mix_v''
                   then str_replace ''.time_mix_v'' ''.time_mix_value'' name5 else name5)"
  define name7 where "name7 = (if endswith name6 ''.time_mix_r''
                   then str_replace ''.time_mix_r'' ''.time_mix_receptance'' name6 else name6)"
  have run: "rename_key k = (if name7 \<noteq> ''head.weight'' then ''rwkv.'' @ name7 else name7)"
    unfolding rename_key_def Let_def name1_def name2_def name3_def name4_def name5_def
      name6_def name7_def ..
  obtain d ds' where ds: "ds = d # ds'" and d: "is_digit d"
    using assms by (cases ds) auto
  have "\<not> startswith k ''emb.''"
    by (simp add: k_def startswith_def)
  then have n1: "name1 = k"
    by (simp only: name1_def if_False)
  have "\<not> prefix ''0.ln0'' (ds @ ''.att.time_mix_k'')"
    using digits_not_ln0 [OF assms] by simp
  then have "\<not> startswith k ''blocks.0.ln0''"
    by (simp add: k_def startswith_def)
  then have n2: "name2 = k"
    by (simp only: name2_def n1 if_False)
  have m3: "match_block ''att'' k = Some (ds, ''.time_mix_k'')"
    unfolding k_def
    using match_block_at_head [OF assms, of "''att''" "''att.time_mix_k''"] by simp
  have tail: "re_sub_blocks lit repl ''.time_mix_k'' = ''.time_mix_k''" for lit repl
    by (rule re_sub_blocks_no_b) simp
  have "name3 = ''blocks.'' @ ds @ ''.'' @ ''attention'' @ ''.time_mix_k''"
    unfolding name3_def n2 by (simp only: re_sub_blocks_match [OF m3] tail)
  then have n3: "name3 = CHR ''b'' # ''locks.'' @ ds @ CHR ''.'' # ''attention.time_mix_k''"
    by simp
  have m4: "match_block ''ffn''
      (CHR ''b'' # ''locks.'' @ ds @ CHR ''.'' # ''attention.time_mix_k'') = None"
    using match_block_at_head [OF assms, of "''ffn''" "''attention.time_mix_k''"] by simp
  have "CHR ''b'' \<notin> set (''locks.'' @ ds @ CHR ''.'' # ''attention.time_mix_k'')"
    using digits_no_b [OF assms(2)] by simp
  then have "re_sub_blocks ''ffn'' ''feed_forward''
        (''locks.'' @ ds @ CHR ''.'' # ''attention.time_mix_k'') =
      ''locks.'' @ ds @ CHR ''.'' # ''attention.time_mix_k''"
    by (rule re_sub_blocks_no_b)
  then have "name4 = CHR ''b'' # ''locks.'' @ ds @ CHR ''.'' # ''attention.time_mix_k''"
    unfolding name4_def n3 by (simp only: re_sub_blocks_no_match [OF m4])
  then have n4: "name4 = ''blocks'' @ CHR ''.'' # d # ds' @ ''.attention.time_mix_k''"
    by (simp add: ds)
  have "suffix ''.time_mix_k'' ((''blocks.'' @ ds @ ''.attention'') @ ''.time_mix_k'')"
    by (rule suffixI) simp
  then have e5: "endswith name4 ''.time_mix_k''"
    by (simp add: n4 ds endswith_def)
  have "str_replace ''.time_mix_k'' ''.time_mix_key''
        (''blocks'' @ CHR ''.'' # d # ds' @ ''.attention.time_mix_k'') =
      ''blocks'' @ str_replace ''.time_mix_k'' ''.time_mix_key''
        (CHR ''.'' # d # ds' @ ''.attention.time_mix_k'')"
    by (rule str_replace_skip) simp
  also have "str_replace ''.time_mix_k'' ''.time_mix_key''
        (CHR ''.'' # d # ds' @ ''.attention.time_mix_k'') =
      CHR ''.'' # str_replace ''.time_mix_k'' ''.time_mix_key''
        (d # ds' @ ''.attention.time_mix_k'')"
    using d by (rule str_replace_dot_digit)
  also have "str_replace ''.time_mix_k'' ''.time_mix_key'' (d # ds' @ ''.attention.time_mix_k'') =
      ds @ str_replace ''.time_mix_k'' ''.time_mix_key'' ''.attention.time_mix_k''"
    using str_replace_skip [OF digits_no_dot [OF assms(2)], of "''time_mix_k''"
        "''.time_mix_key''" "''.attention.time_mix_k''"]
    by (simp only: ds append_Cons)
  also have "str_replace ''.time_mix_k'' ''.time_mix_key'' ''.attention.time_mix_k'' =
      ''.attention.time_mix_key''"
    by code_simp
  finally have "name5 = ''blocks'' @ CHR ''.'' # ds @ ''.attention.time_mix_key''"
    using e5 by (simp only: name5_def n4 if_True)
  then have n5: "name5 = (''blocks.'' @ ds @ ''.attention.time_mix_k'') @ ''ey''"
    by simp
  have no_v: "\<not> endswith name5 ''.time_mix_v''" and no_r: "\<not> endswith name5 ''.time_mix_r''"
    unfolding n5 endswith_def by (simp_all add: suffix_to_prefix)
  have n6: "name6 = name5"
    using no_v by (simp only: name6_def if_False)
  have n7: "name7 = name5"
    using no_r by (simp only: name7_def n6 if_False)
  have "name7 \<noteq> ''head.weight''"
    by (simp add: n7 n5)
  then have "rename_key k = ''rwkv.'' @ name7"
    using run by simp
  then show ?thesis
    by (simp add: n7 n5 k_def)
qed

lemma rename_key_prefixed:
  "rename_key k = ''head.weight'' \<or> prefix ''rwkv.'' (rename_key k)"
proof -
  define name1 where "name1 = (if startswith k ''emb.''
                   then str_replace ''emb.'' ''embeddings.'' k else k)"
  define name2 where "name2 = (if startswith name1 ''blocks.0.ln0''
                   then str_replace ''blocks.0.ln0'' ''blocks.0.pre_ln'' name1 else name1)"
  define name3 where "name3 = re_sub_blocks ''att'' ''attention'' name2"
  define name4 where "name4 = re_sub_blocks ''ffn'' ''feed_forward'' name3"
  define name5 where "name5 = (if endswith name4 ''.time_mix_k''
                   then str_replace ''.time_mix_k'' ''.time_mix_key'' name4 else name4)"
  define name6 where "name6 = (if endswith name5 ''.time_mix_v''
                   then str_replace ''.time_mix_v'' ''.time_mix_value'' name5 else name5)"
  define name7 where "name7 = (if endswith name6 ''.time_mix_r''
                   then str_replace ''.time_mix_r'' ''.time_mix_receptance'' name6 else name6)"
  have "rename_key k = (if name7 \<noteq> ''head.weight'' then ''rwkv.'' @ name7 else name7)"
    unfolding rename_key_def Let_def name1_def name2_def name3_def name4_def name5_def
      name6_def name7_def ..
  then show ?thesis
    by (cases "name7 = ''head.weight''") simp_all
qed

lemma str_replace_absent:
  "\<not> str_contains (x # old) s \<Longrightarrow> str_replace (x # old) new s = s"
  by (induction s) auto

lemma str_replace_prefix_once:
  assumes "prefix (x # old) s" and "\<not> str_contains (x # old) (drop (length (x # old)) s)"
  shows "str_replace (x # old) new s = new @ drop (length (x # old)) s"
proof -
  from assms(1) obtain rest where s: "s = x # (old @ rest)"
    by (auto simp: prefix_def)
  have "prefix (x # old) (x # (old @ rest))"
    by simp
  then have "str_replace (x # old) new (x # (old @ rest)) =
      new @ str_replace (x # old) new (drop (length old) (old @ rest))"
    by (simp only: str_replace.simps if_True)
  moreover have "str_replace (x # old) new rest = rest"
    using assms(2) s by (intro str_replace_absent) simp
  ultimately show ?thesis
    by (simp add: s)
qed

lemma prefix_not_last:
  assumes "L \<noteq> []" and "prefix p (c # L)" and "length p \<le> length L"
  shows "prefix p (c # butlast L)"
proof -
  have "c # L = (c # butlast L) @ [last L]"
    using assms(1) by simp
  then have "prefix p ((c # butlast L) @ [last L])"
    using assms(2) by (simp only:)
  then have "p = (c # butlast L) @ [last L] \<or> prefix p (c # butlast L)"
    by (simp only: prefix_snoc)
  moreover have "p \<noteq> (c # butlast L) @ [last L]"
  proof
    assume "p = (c # butlast L) @ [last L]"
    then have "length p = Suc (length L)"
      using assms(1) by simp
    with assms(3) show False
      by simp
  qed
  ultimately show ?thesis
    by blast
qed

lemma str_replace_suffix_once:
  "\<not> str_contains (x # old) (butlast (pre @ x # old)) \<Longrightarrow>
   str_replace (x # old) new (pre @ x # old) = pre @ new"
proof (induction pre)
  case Nil
  have "prefix (x # old) (x # old)"
    by simp
  then have "str_replace (x # old) new (x # old) =
      new @ str_replace (x # old) new (drop (length old) old)"
    by (simp only: str_replace.simps if_True)
  then show ?case
    by simp
next
  case (Cons c pre)
  define L where "L = pre @ x # old"
  have L: "L \<noteq> []" and len: "length (x # old) \<le> length L"
    by (simp_all add: L_def)
  have "butlast ((c # pre) @ x # old) = c # butlast L"
    by (simp add: L_def)
  with Cons.prems have "\<not> str_contains (x # old) (c # butlast L)"
    by metis
  then have np: "\<not> prefix (x # old) (c # butlast L)"
    and nc: "\<not> str_contains (x # old) (butlast L)"
    unfolding str_contains.simps by blast+
  have "\<not> prefix (x # old) (c # L)"
    using prefix_not_last [OF L _ len] np by blast
  then have "str_replace (x # old) new (c # L) = c # str_replace (x # old) new L"
    by (simp only: str_replace.simps if_False)
  moreover have "str_replace (x # old) new L = pre @ new"
    using nc unfolding L_def by (rule Cons.IH)
  ultimately show ?case
    by (simp add: L_def)
qed

lemma prefix_step_agrees:
  assumes "prefix (x # old) s \<longrightarrow> \<not> str_contains (x # old) (drop (length (x # old)) s)"
  shows "(if startswith s (x # old) then str_replace (x # old) new s else s) =
     spec_prefix_rule (x # old) new s"
proof (cases "prefix (x # old) s")
  case True
  with assms have "str_replace (x # old) new s = new @ drop (length (x # old)) s"
    by (intro str_replace_prefix_once) blast+
  with True show ?thesis
    by (simp only: startswith_def spec_prefix_rule_def if_True)
next
  case False
  then show ?thesis
    by (simp only: startswith_def spec_prefix_rule_def if_False)
qed

lemma suffix_step_agrees:
  assumes "suffix (x # old) s \<longrightarrow> \<not> str_contains (x # old) (butlast s)"
  shows "(if endswith s (x # old) then str_replace (x # old) new s else s) =
     spec_suffix_rule (x # old) new s"
proof (cases "suffix (x # old) s")
  case True
  then obtain pre where s: "s = pre @ x # old"
    by (auto simp: suffix_def)
  have "str_replace (x # old) new (pre @ x # old) = pre @ new"
    using assms True unfolding s by (intro str_replace_suffix_once) blast
  moreover have "take (length s - length (x # old)) s = pre"
    by (simp add: s)
  ultimately show ?thesis
    using True by (simp only: endswith_def spec_suffix_rule_def if_True s)
next
  case False
  then show ?thesis
    by (simp only: endswith_def spec_suffix_rule_def if_False)
qed

lemma spec_suffix_rule_fired:
  "suffix old s \<Longrightarrow> \<exists>pre. spec_suffix_rule old new s = pre @ new"
  by (auto simp: spec_suffix_rule_def)

lemma rename_key_refines:
  assumes h1: "prefix ''emb.'' k \<longrightarrow> \<not> str_contains ''emb.'' (drop 4 k)"
    and h2: "prefix ''blocks.0.ln0'' k \<longrightarrow> \<not> str_contains ''blocks.0.ln0'' (drop 12 k)"
    and hk: "suffix ''.time_mix_k'' (spec_rules_1_to_4 k) \<longrightarrow>
               \<not> str_contains ''.time_mix_k'' (butlast (spec_rules_1_to_4 k))"
    and hv: "suffix ''.time_mix_v'' (spec_rules_1_to_4 k) \<longrightarrow>
               \<not> str_contains ''.time_mix_v'' (butlast (spec_rules_1_to_4 k))"
    and hr: "suffix ''.time_mix_r'' (spec_rules_1_to_4 k) \<longrightarrow>
               \<not> str_contains ''.time_mix_r'' (butlast (spec_rules_1_to_4 k))"
  shows "rename_key k = spec_rename_key k"
proof -
  define name1 where "name1 = (if startswith k ''emb.''
                   then str_replace ''emb.'' ''embeddings.'' k else k)"
  define name2 where "name2 = (if startswith name1 ''blocks.0.ln0''
                   then str_replace ''blocks.0.ln0'' ''blocks.0.pre_ln'' name1 else name1)"
  define name3 where "name3 = re_sub_blocks ''att'' ''attention'' name2"
  define name4 where "name4 = re_sub_blocks ''ffn'' ''feed_forward'' name3"
  define name5 where "name5 = (if endswith name4 ''.time_mix_k''
                   then str_replace ''.time_mix_k'' ''.time_mix_key'' name4 else name4)"
  define name6 where "name6 = (if endswith name5 ''.time_mix_v''
                   then str_replace ''.time_mix_v'' ''.time_mix_value'' name5 else name5)"
  define name7 where "name7 = (if endswith name6 ''.time_mix_r''
                   then str_replace ''.time_mix_r'' ''.time_mix_receptance'' name6 else name6)"
  have run: "rename_key k = (if name7 \<noteq> ''head.weight'' then ''rwkv.'' @ name7 else name7)"
    unfolding rename_key_def Let_def name1_def name2_def name3_def name4_def name5_def
      name6_def name7_def ..
  have l4: "length ''emb.'' = 4" and l12: "length ''blocks.0.ln0'' = 12"
    by simp_all
  have "prefix ''emb.'' k \<longrightarrow> \<not> str_contains ''emb.'' (drop (length ''emb.'') k)"
    using h1 by (simp only: l4)
  then have n1: "name1 = spec_prefix_rule ''emb.'' ''embeddings.'' k"
    unfolding name1_def by (rule prefix_step_agrees)
  have "prefix ''blocks.0.ln0'' name1 \<longrightarrow>
      \<not> str_contains ''blocks.0.ln0'' (drop (length ''blocks.0.ln0'') name1)"
  proof (cases "prefix ''emb.'' k")
    case True
    then have "name1 = ''embeddings.'' @ drop (length ''emb.'') k"
      by (simp only: n1 spec_prefix_rule_def if_True)
    then have "\<not> prefix ''blocks.0.ln0'' name1"
      by simp
    then show ?thesis
      by blast
  next
    case False
    then have "name1 = k"
      by (simp only: n1 spec_prefix_rule_def if_False)
    with h2 show ?thesis
      by (simp only: l12)
  qed
  then have n2: "name2 = spec_prefix_rule ''blocks.0.ln0'' ''blocks.0.pre_ln'' name1"
    unfolding name2_def by (rule prefix_step_agrees)
  have n4: "name4 = spec_rules_1_to_4 k"
    by (simp only: name4_def name3_def n2 n1 spec_rules_1_to_4_def)
  have n5: "name5 = spec_suffix_rule ''.time_mix_k'' ''.time_mix_key'' name4"
    unfolding name5_def using hk unfolding n4 [symmetric] by (rule suffix_step_agrees)
  have k_fired: "\<not> suffix ''.time_mix_v'' name5 \<and> \<not> suffix ''.time_mix_r'' name5"
    if "suffix ''.time_mix_k'' name4"
  proof -
    from that obtain pre where "name5 = pre @ ''.time_mix_key''"
      unfolding n5 using spec_suffix_rule_fired by blast
    then show ?thesis
      by (simp add: suffix_to_prefix)
  qed
  have k_not: "name5 = name4" if "\<not> suffix ''.time_mix_k'' name4"
    using that by (simp add: n5 spec_suffix_rule_def)
  have "suffix ''.time_mix_v'' name5 \<longrightarrow> \<not> str_contains ''.time_mix_v'' (butlast name5)"
    using k_fired k_not hv unfolding n4 [symmetric] by metis
  then have n6: "name6 = spec_suffix_rule ''.time_mix_v'' ''.time_mix_value'' name5"
    unfolding name6_def by (rule suffix_step_agrees)
  have v_fired: "\<not> suffix ''.time_mix_r'' name6" if "suffix ''.time_mix_v'' name5"
  proof -
    from that obtain pre where "name6 = pre @ ''.time_mix_value''"
      unfolding n6 using spec_suffix_rule_fired by blast
    then show ?thesis
      by (simp add: suffix_to_prefix)
  qed
  have v_not: "name6 = name5" if "\<not> suffix ''.time_mix_v'' name5"
    using that by (simp add: n6 spec_suffix_rule_def)
  have "suffix ''.time_mix_r'' name6 \<longrightarrow> \<not> str_contains ''.time_mix_r'' (butlast name6)"
    using k_fired k_not v_fired v_not hr unfolding n4 [symmetric] by metis
  then have n7: "name7 = spec_suffix_rule ''.time_mix_r'' ''.time_mix_receptance'' name6"
    unfolding name7_def by (rule suffix_step_agrees)
  have "spec_rename_key k = (if name7 = ''head.weight'' then name7 else ''rwkv.'' @ name7)"
    by (simp only: spec_rename_key_def Let_def n7 n6 n5 n4)
  with run show ?thesis
    by simp
qed

lemma re_sub_blocks_skip:
  "CHR ''b'' \<notin> set pre \<Longrightarrow>
   re_sub_blocks lit repl (pre @ s) = pre @ re_sub_blocks lit repl s"
proof (induction pre)
  case Nil
  then show ?case by simp
next
  case (Cons c pre)
  then have "match_block lit (c # pre @ s) = None"
    by (auto simp: match_block_def)
  then have "re_sub_blocks lit repl (c # pre @ s) = c # re_sub_blocks lit repl (pre @ s)"
    by (rule re_sub_blocks_no_match)
  with Cons show ?case
    by simp
qed

lemma re_sub_blocks_segment:
  assumes "ds \<noteq> []" and "\<forall>c\<in>set ds. is_digit c"
    and "CHR ''b'' \<notin> set pre" and "CHR ''b'' \<notin> set rest"
  shows "re_sub_blocks lit repl (pre @ ''blocks.'' @ ds @ ''.'' @ lit @ rest) =
     pre @ ''blocks.'' @ ds @ ''.'' @ repl @ rest"
proof -
  have "match_block lit (''blocks.'' @ ds @ CHR ''.'' # (lit @ rest)) =
      (if prefix lit (lit @ rest) then Some (ds, drop (length lit) (lit @ rest)) else None)"
    using assms(1,2) by (rule match_block_at_head)
  then have "match_block lit (''blocks.'' @ ds @ CHR ''.'' # (lit @ rest)) = Some (ds, rest)"
    by simp
  then have "re_sub_blocks lit repl (''blocks.'' @ ds @ CHR ''.'' # (lit @ rest)) =
      ''blocks.'' @ ds @ ''.'' @ repl @ re_sub_blocks lit repl rest"
    by (rule re_sub_blocks_match)
  moreover have "re_sub_blocks lit repl rest = rest"
    using assms(4) by (rule re_sub_blocks_no_b)
  moreover have "re_sub_blocks lit repl (pre @ ''blocks.'' @ ds @ CHR ''.'' # (lit @ rest)) =
      pre @ re_sub_blocks lit repl (''blocks.'' @ ds @ CHR ''.'' # (lit @ rest))"
    using assms(3) by (rule re_sub_blocks_skip)
  ultimately show ?thesis
    by simp
qed

text \<open>
  Claim C1, as the code has it. For every key in which the pattern of rule 1, 2, 5, 6 or
  7 has no further occurrence once the rule's test holds (\<^verbatim>\<open>emb.\<close> and \<^verbatim>\<open>blocks.0.ln0\<close>
  behind the prefix of the key, \<^verbatim>\<open>.time_mix_k\<close>, \<^verbatim>\<open>.time_mix_v\<close> and \<^verbatim>\<open>.time_mix_r\<close> before
  the suffix of the key as rules 1 to 4 leave it), the rewriter gives the result of the
  rules 1 to 8 of the specification, applied in their order. The renamings of the
  specification hold: \<^verbatim>\<open>emb.weight\<close> becomes \<^verbatim>\<open>rwkv.embeddings.weight\<close>,
  \<^verbatim>\<open>blocks.0.ln0.weight\<close> becomes \<^verbatim>\<open>rwkv.blocks.0.pre_ln.weight\<close>, \<^verbatim>\<open>blocks.3.att.time_mix_k\<close>
  becomes \<^verbatim>\<open>rwkv.blocks.3.attention.time_mix_key\<close>, \<^verbatim>\<open>head.weight\<close> stays, and a checkpoint
  with these four keys is converted to the four renamed keys, each with its own tensor;
  so do those of the other rules: \<^verbatim>\<open>ffn\<close> becomes \<^verbatim>\<open>feed_forward\<close>, \<^verbatim>\<open>time_mix_v\<close> becomes
  \<^verbatim>\<open>time_mix_value\<close>, \<^verbatim>\<open>time_mix_r\<close> becomes \<^verbatim>\<open>time_mix_receptance\<close>, and \<^verbatim>\<open>ln0\<close> of another
  block than 0 stays. For every key: a key that begins with \<^verbatim>\<open>emb.\<close> gets a name that
  begins with \<^verbatim>\<open>rwkv.embeddings.\<close>; \<^verbatim>\<open>blocks.N.att.time_mix_k\<close> becomes
  \<^verbatim>\<open>rwkv.blocks.N.attention.time_mix_key\<close> for every block index \<^verbatim>\<open>N\<close>, a non-empty string
  of digits; \<^verbatim>\<open>head.weight\<close> is the only key that is renamed to \<^verbatim>\<open>head.weight\<close>, and every
  other key gets the prefix \<^verbatim>\<open>rwkv.\<close>; and the substitution of rules 3 and 4 rewrites a
  segment \<^verbatim>\<open>blocks.N.LIT\<close> between texts without the letter \<^verbatim>\<open>b\<close> and keeps \<^verbatim>\<open>N\<close>.
\<close>

theorem rename_key_follows_rules:
  "((prefix ''emb.'' k \<longrightarrow> \<not> str_contains ''emb.'' (drop 4 k)) \<and>
    (prefix ''blocks.0.ln0'' k \<longrightarrow> \<not> str_contains ''blocks.0.ln0'' (drop 12 k)) \<and>
    (suffix ''.time_mix_k'' (spec_rules_1_to_4 k) \<longrightarrow>
       \<not> str_contains ''.time_mix_k'' (butlast (spec_rules_1_to_4 k))) \<and>
    (suffix ''.time_mix_v'' (spec_rules_1_to_4 k) \<longrightarrow>
       \<not> str_contains ''.time_mix_v'' (butlast (spec_rules_1_to_4 k))) \<and>
    (suffix ''.time_mix_r'' (spec_rules_1_to_4 k) \<longrightarrow>
       \<not> str_contains ''.time_mix_r'' (butlast (spec_rules_1_to_4 k)))
    \<longrightarrow> rename_key k = spec_rename_key k) \<and>
   rename_key ''emb.weight'' = ''rwkv.embeddings.weight'' \<and>
   rename_key ''blocks.0.ln0.weight'' = ''rwkv.blocks.0.pre_ln.weight'' \<and>
   rename_key ''blocks.3.att.time_mix_k'' = ''rwkv.blocks.3.attention.time_mix_key'' \<and>
   rename_key ''head.weight'' = ''head.weight'' \<and>
   convert_state_dict
     [(''emb.weight'', w1), (''blocks.0.ln0.weight'', w2),
      (''blocks.3.att.time_mix_k'', w3), (''head.weight'', w4)] =
   Inr [(''rwkv.embeddings.weight'', w1), (''rwkv.blocks.0.pre_ln.weight'', w2),
        (''rwkv.blocks.3.attention.time_mix_key'', w3), (''head.weight'', w4)] \<and>
   rename_key ''blocks.5.ffn.key.weight'' = ''rwkv.blocks.5.feed_forward.key.weight'' \<and>
   rename_key ''blocks.11.att.time_mix_v'' = ''rwkv.blocks.11.attention.time_mix_value'' \<and>
   rename_key ''blocks.2.ffn.time_mix_r'' =
     ''rwkv.blocks.2.feed_forward.time_mix_receptance'' \<and>
   rename_key ''blocks.1.ln0.weight'' = ''rwkv.blocks.1.ln0.weight'' \<and>
   prefix ''rwkv.embeddings.'' (rename_key (''emb.'' @ rest)) \<and>
   (ds \<noteq> [] \<and> (\<forall>c\<in>set ds. is_digit c) \<longrightarrow>
      rename_key (''blocks.'' @ ds @ ''.att.time_mix_k'') =
        ''rwkv.blocks.'' @ ds @ ''.attention.time_mix_key'') \<and>
   (rename_key k = ''head.weight'' \<longleftrightarrow> k = ''head.weight'') \<and>
   (k \<noteq> ''head.weight'' \<longrightarrow> prefix ''rwkv.'' (rename_key k)) \<and>
   (ds \<noteq> [] \<and> (\<forall>c\<in>set ds. is_digit c) \<and> CHR ''b'' \<notin> set pre \<and> CHR ''b'' \<notin> set post \<longrightarrow>
      re_sub_blocks lit repl (pre @ ''blocks.'' @ ds @ ''.'' @ lit @ post) =
        pre @ ''blocks.'' @ ds @ ''.'' @ repl @ post)"
proof -
  have names:
    "rename_key ''emb.weight'' = ''rwkv.embeddings.weight''"
    "rename_key ''blocks.0.ln0.weight'' = ''rwkv.blocks.0.pre_ln.weight''"
    "rename_key ''blocks.3.att.time_mix_k'' = ''rwkv.blocks.3.attention.time_mix_key''"
    "rename_key ''head.weight'' = ''head.weight''"
    by code_simp+
  have more:
    "rename_key ''blocks.5.ffn.key.weight'' = ''rwkv.blocks.5.feed_forward.key.weight''"
    "rename_key ''blocks.11.att.time_mix_v'' = ''rwkv.blocks.11.attention.time_mix_value''"
    "rename_key ''blocks.2.ffn.time_mix_r'' =
       ''rwkv.blocks.2.feed_forward.time_mix_receptance''"
    "rename_key ''blocks.1.ln0.weight'' = ''rwkv.blocks.1.ln0.weight''"
    by code_simp+
  have dict: "convert_state_dict
     [(''emb.weight'', w1), (''blocks.0.ln0.weight'', w2),
      (''blocks.3.att.time_mix_k'', w3), (''head.weight'', w4)] =
   Inr [(''rwkv.embeddings.weight'', w1), (''rwkv.blocks.0.pre_ln.weight'', w2),
        (''rwkv.blocks.3.attention.time_mix_key'', w3), (''head.weight'', w4)]"
    by (simp add: convert_state_dict_def dict_pop_def names)
  have refines: "(prefix ''emb.'' k \<longrightarrow> \<not> str_contains ''emb.'' (drop 4 k)) \<and>
    (prefix ''blocks.0.ln0'' k \<longrightarrow> \<not> str_contains ''blocks.0.ln0'' (drop 12 k)) \<and>
    (suffix ''.time_mix_k'' (spec_rules_1_to_4 k) \<longrightarrow>
       \<not> str_contains ''.time_mix_k'' (butlast (spec_rules_1_to_4 k))) \<and>
    (suffix ''.time_mix_v'' (spec_rules_1_to_4 k) \<longrightarrow>
       \<not> str_contains ''.time_mix_v'' (butlast (spec_rules_1_to_4 k))) \<and>
    (suffix ''.time_mix_r'' (spec_rules_1_to_4 k) \<longrightarrow>
       \<not> str_contains ''.time_mix_r'' (butlast (spec_rules_1_to_4 k)))
    \<longrightarrow> rename_key k = spec_rename_key k"
    using rename_key_refines [of k] by blast
  have block: "ds \<noteq> [] \<and> (\<forall>c\<in>set ds. is_digit c) \<longrightarrow>
      rename_key (''blocks.'' @ ds @ ''.att.time_mix_k'') =
        ''rwkv.blocks.'' @ ds @ ''.attention.time_mix_key''"
    using rename_key_block_att_time_mix_k by blast
  have other: "k \<noteq> ''head.weight'' \<longrightarrow> prefix ''rwkv.'' (rename_key k)"
    using rename_key_prefixed [of k] rename_key_head_weight_iff [of k] by blast
  have segment: "ds \<noteq> [] \<and> (\<forall>c\<in>set ds. is_digit c) \<and> CHR ''b'' \<notin> set pre \<and>
      CHR ''b'' \<notin> set post \<longrightarrow>
      re_sub_blocks lit repl (pre @ ''blocks.'' @ ds @ ''.'' @ lit @ post) =
        pre @ ''blocks.'' @ ds @ ''.'' @ repl @ post"
    using re_sub_blocks_segment [of ds pre post lit repl] by blast
  show ?thesis
    by (intro conjI refines names more dict rename_key_emb block
        rename_key_head_weight_iff other segment)
qed

text \<open>
  In \<^verbatim>\<open>emb.weight\<close> the pattern \<^verbatim>\<open>emb.\<close> occurs only as the prefix, and in
  \<^verbatim>\<open>blocks.3.att.time_mix_k\<close>, as rules 1 to 4 leave it, \<^verbatim>\<open>.time_mix_k\<close> occurs only as the
  suffix: on both keys the rewriter gives the result of the rules. The block index
  \<^verbatim>\<open>12\<close> is a non-empty string of digits.
\<close>

theorem rename_key_follows_rules_witness:
  "prefix ''emb.'' ''emb.weight'' \<and> \<not> str_contains ''emb.'' (drop 4 ''emb.weight'') \<and>
   rename_key ''emb.weight'' = spec_rename_key ''emb.weight'' \<and>
   spec_rename_key ''emb.weight'' = ''rwkv.embeddings.weight'' \<and>
   suffix ''.time_mix_k'' (spec_rules_1_to_4 ''blocks.3.att.time_mix_k'') \<and>
   \<not> str_contains ''.time_mix_k'' (butlast (spec_rules_1_to_4 ''blocks.3.att.time_mix_k'')) \<and>
   rename_key ''blocks.3.att.time_mix_k'' = spec_rename_key ''blocks.3.att.time_mix_k'' \<and>
   spec_rename_key ''blocks.3.att.time_mix_k'' = ''rwkv.blocks.3.attention.time_mix_key'' \<and>
   ''12'' \<noteq> [] \<and> is_digit CHR ''1'' \<and> is_digit CHR ''2'' \<and>
   rename_key ''blocks.12.att.time_mix_k'' = ''rwkv.blocks.12.attention.time_mix_key'' \<and>
   ''emb.weight'' \<noteq> ''head.weight'' \<and>
   prefix ''rwkv.'' (rename_key ''emb.weight'') \<and>
   re_sub_blocks ''ffn'' ''feed_forward'' ''blocks.12.ffn.key.weight'' =
     ''blocks.12.feed_forward.key.weight''"
proof -
  have e: "prefix ''emb.'' ''emb.weight''"
    "\<not> str_contains ''emb.'' (drop 4 ''emb.weight'')"
    "\<not> prefix ''blocks.0.ln0'' ''emb.weight''"
    "\<not> suffix ''.time_mix_k'' (spec_rules_1_to_4 ''emb.weight'')"
    "\<not> suffix ''.time_mix_v'' (spec_rules_1_to_4 ''emb.weight'')"
    "\<not> suffix ''.time_mix_r'' (spec_rules_1_to_4 ''emb.weight'')"
    "spec_rename_key ''emb.weight'' = ''rwkv.embeddings.weight''"
    by code_simp+
  have b: "\<not> prefix ''emb.'' ''blocks.3.att.time_mix_k''"
    "\<not> prefix ''blocks.0.ln0'' ''blocks.3.att.time_mix_k''"
    "suffix ''.time_mix_k'' (spec_rules_1_to_4 ''blocks.3.att.time_mix_k'')"
    "\<not> str_contains ''.time_mix_k'' (butlast (spec_rules_1_to_4 ''blocks.3.att.time_mix_k''))"
    "\<not> suffix ''.time_mix_v'' (spec_rules_1_to_4 ''blocks.3.att.time_mix_k'')"
    "\<not> suffix ''.time_mix_r'' (spec_rules_1_to_4 ''blocks.3.att.time_mix_k'')"
    "spec_rename_key ''blocks.3.att.time_mix_k'' = ''rwkv.blocks.3.attention.time_mix_key''"
    by code_simp+
  have d: "''12'' \<noteq> [] \<and> (\<forall>c\<in>set ''12''. is_digit c)"
    by (simp add: is_digit_def)
  have nb: "CHR ''b'' \<notin> set ''''" "CHR ''b'' \<notin> set ''.key.weight''"
    by simp_all
  have k: "''emb.weight'' \<noteq> ''head.weight''"
    by simp
  note t1 = rename_key_follows_rules [of "''emb.weight''" "0::nat" 0 0 0 "''weight''" "''12''"
      "''''" "''.key.weight''" "''ffn''" "''feed_forward''"]
  note t2 = rename_key_follows_rules [of "''blocks.3.att.time_mix_k''" "0::nat" 0 0 0
      "''weight''" "''12''" "''''" "''.key.weight''" "''ffn''" "''feed_forward''"]
  from t1 e have r1: "rename_key ''emb.weight'' = spec_rename_key ''emb.weight''"
    by blast
  from t2 b have r2: "rename_key ''blocks.3.att.time_mix_k'' =
      spec_rename_key ''blocks.3.att.time_mix_k''"
    by blast
  from t1 d have r3: "rename_key (''blocks.'' @ ''12'' @ ''.att.time_mix_k'') =
        ''rwkv.blocks.'' @ ''12'' @ ''.attention.time_mix_key''"
    by blast
  from t1 k have r4: "prefix ''rwkv.'' (rename_key ''emb.weight'')"
    by blast
  from t1 d nb have r5: "re_sub_blocks ''ffn'' ''feed_forward''
        ('''' @ ''blocks.'' @ ''12'' @ ''.'' @ ''ffn'' @ ''.key.weight'') =
      '''' @ ''blocks.'' @ ''12'' @ ''.'' @ ''feed_forward'' @ ''.key.weight''"
    by blast
  from e b d k r1 r2 r3 r4 r5 show ?thesis
    by simp
qed

text \<open>
  Claim C1 as stated fails where a pattern occurs twice. In \<^verbatim>\<open>emb.emb.weight\<close> rule 1 of
  the specification rewrites the prefix; the code rewrites both occurrences of \<^verbatim>\<open>emb.\<close>.
  In \<^verbatim>\<open>x.time_mix_k.time_mix_k\<close> rule 5 rewrites the suffix; the code rewrites both
  occurrences of \<^verbatim>\<open>.time_mix_k\<close>.
\<close>

theorem rename_key_follows_rules_counterexample:
  "rename_key ''emb.emb.weight'' = ''rwkv.embeddings.embeddings.weight'' \<and>
   spec_rename_key ''emb.emb.weight'' = ''rwkv.embeddings.emb.weight'' \<and>
   rename_key ''x.time_mix_k.time_mix_k'' = ''rwkv.x.time_mix_key.time_mix_key'' \<and>
   spec_rename_key ''x.time_mix_k.time_mix_k'' = ''rwkv.x.time_mix_k.time_mix_key''"
  by code_simp




text \<open>
  Claim C7, as the code has it. On a checkpoint with unique keys every tensor of the
  result is a tensor of the input, and when no key is renamed to the new name of another
  key or to a key that comes later, the result is the input with every key renamed: the
  tensor under the new name of a key is the tensor the input had under that key.
\<close>

theorem convert_state_dict_keeps_tensors:
  assumes "distinct (map fst d)"
  shows "\<exists>out. convert_state_dict d = Inr out \<and> snd ` set out \<subseteq> snd ` set d \<and>
           ((\<forall>i j. i < j \<and> j < length d \<longrightarrow>
               rename_key (fst (d ! i)) \<noteq> fst (d ! j) \<and>
               rename_key (fst (d ! i)) \<noteq> rename_key (fst (d ! j))) \<longrightarrow>
            out = map (\<lambda>(k, v). (rename_key k, v)) d \<and>
            (\<forall>(k, v) \<in> set d. map_of out (rename_key k) = Some v))"
proof -
  let ?free = "\<forall>i j. i < j \<and> j < length d \<longrightarrow>
                 rename_key (fst (d ! i)) \<noteq> fst (d ! j) \<and>
                 rename_key (fst (d ! i)) \<noteq> rename_key (fst (d ! j))"
  from convert_state_dict_total [OF assms]
  obtain out where out: "convert_state_dict d = Inr out" and dist: "distinct (map fst out)"
    by blast
  have vals: "snd ` set out \<subseteq> snd ` set d"
    using out convert_loop_values [of "map fst d" d out] by (simp add: convert_state_dict_def)
  have "out = map (\<lambda>(k, v). (rename_key k, v)) d \<and>
      (\<forall>(k, v) \<in> set d. map_of out (rename_key k) = Some v)" if free: ?free
  proof -
    have eq: "out = map (\<lambda>(k, v). (rename_key k, v)) d"
      using convert_state_dict_clash_free [OF assms free] out by simp
    have "map_of out (rename_key k) = Some v" if "(k, v) \<in> set d" for k v
    proof -
      have "(rename_key k, v) \<in> set out"
        using that eq by force
      then show ?thesis
        using dist by simp
    qed
    with eq show ?thesis
      by blast
  qed
  with out vals show ?thesis
    by blast
qed

text \<open>
  On the checkpoint with the keys \<^verbatim>\<open>emb.weight\<close> and \<^verbatim>\<open>head.weight\<close> no key is renamed to
  another one, and each tensor is found under the new name of its key.
\<close>

theorem convert_state_dict_keeps_tensors_witness:
  "distinct (map fst [(''emb.weight'', 7::nat), (''head.weight'', 9)]) \<and>
   rename_key ''emb.weight'' = ''rwkv.embeddings.weight'' \<and>
   rename_key ''head.weight'' = ''head.weight'' \<and>
   convert_state_dict [(''emb.weight'', 7::nat), (''head.weight'', 9)] =
     Inr [(''rwkv.embeddings.weight'', 7), (''head.weight'', 9)] \<and>
   map_of [(''rwkv.embeddings.weight'', 7::nat), (''head.weight'', 9)]
     (rename_key ''emb.weight'') = Some 7 \<and>
   map_of [(''rwkv.embeddings.weight'', 7::nat), (''head.weight'', 9)]
     (rename_key ''head.weight'') = Some 9"
proof -
  let ?d = "[(''emb.weight'', 7::nat), (''head.weight'', 9)]"
  have d: "distinct (map fst ?d)"
    by simp
  have names:
    "rename_key ''emb.weight'' = ''rwkv.embeddings.weight''"
    "rename_key ''head.weight'' = ''head.weight''"
    by code_simp+
  have free: "\<forall>i j. i < j \<and> j < length ?d \<longrightarrow>
       rename_key (fst (?d ! i)) \<noteq> fst (?d ! j) \<and>
       rename_key (fst (?d ! i)) \<noteq> rename_key (fst (?d ! j))"
  proof (intro allI impI)
    fix i j :: nat
    assume "i < j \<and> j < length ?d"
    then have "i = 0" and "j = 1"
      by auto
    then show "rename_key (fst (?d ! i)) \<noteq> fst (?d ! j) \<and>
       rename_key (fst (?d ! i)) \<noteq> rename_key (fst (?d ! j))"
      by (simp add: names)
  qed
  from convert_state_dict_keeps_tensors [OF d] free
  obtain out where "convert_state_dict ?d = Inr out"
    and "out = map (\<lambda>(k, v). (rename_key k, v)) ?d"
    and "\<forall>(k, v) \<in> set ?d. map_of out (rename_key k) = Some v"
    by blast
  then show ?thesis
    using names by simp
qed

text \<open>
  Claim C7 as stated fails where keys clash. \<^verbatim>\<open>blocks.0.ln0.weight\<close> and
  \<^verbatim>\<open>blocks.0.pre_ln.weight\<close> get the same new name, and the tensor under it is the one of
  the second key. \<^verbatim>\<open>a\<close> is renamed to \<^verbatim>\<open>rwkv.a\<close>, a key that is still to be processed: its
  tensor replaces the tensor of \<^verbatim>\<open>rwkv.a\<close>, which is lost.
\<close>

theorem convert_state_dict_keeps_tensors_counterexample:
  "rename_key ''blocks.0.ln0.weight'' = ''rwkv.blocks.0.pre_ln.weight'' \<and>
   convert_state_dict [(''blocks.0.ln0.weight'', 1::nat), (''blocks.0.pre_ln.weight'', 2)] =
     Inr [(''rwkv.blocks.0.pre_ln.weight'', 2)] \<and>
   rename_key ''rwkv.a'' = ''rwkv.rwkv.a'' \<and>
   convert_state_dict [(''a'', 1::nat), (''rwkv.a'', 2)] = Inr [(''rwkv.rwkv.a'', 1)]"
proof -
  have names:
    "rename_key ''blocks.0.ln0.weight'' = ''rwkv.blocks.0.pre_ln.weight''"
    "rename_key ''blocks.0.pre_ln.weight'' = ''rwkv.blocks.0.pre_ln.weight''"
    "rename_key ''a'' = ''rwkv.a''"
    "rename_key ''rwkv.a'' = ''rwkv.rwkv.a''"
    by code_simp+
  then show ?thesis
    by (simp add: convert_state_dict_def dict_pop_def)
qed

subsection \<open>The configuration builder\<close>

text \<open>
  Claim C3, evaluated on the code. Without a size, a file name that contains \<^verbatim>\<open>430M\<close>
  gives the hidden size 1024 of that label, and the number of layers 1024 as well: it
  is read from \<^verbatim>\<open>HIDEN_SIZE_MAPPING\<close>, where the table of the layers has 24.
\<close>

theorem build_config_430M_layers_from_hidden_table:
  "build_config tokenizer_len (Some ''RWKV-4-Pile-430M-20220808-8066.pth'') None None =
     Inr \<lparr>vocab_size = 50277, num_hidden_layers = 1024, hidden_size = 1024\<rparr> \<and>
   dict_get NUM_HIDDEN_LAYERS_MAPPING ''430M'' = Inr 24"
  by code_simp

text \<open>
  Claim C4, evaluated on the code. For each of the six known labels, passing the label as
  the size raises \<^verbatim>\<open>UnboundLocalError\<close>: no configuration is built, whatever the file name
  and the tokenizer.
\<close>

theorem build_config_known_label_unbound:
  "build_config tokenizer_len file (Some (SizeStr ''169M'')) tokenizer_file =
     Inl (UnboundLocalError ''num_hidden_layers'') \<and>
   build_config tokenizer_len file (Some (SizeStr ''430M'')) tokenizer_file =
     Inl (UnboundLocalError ''num_hidden_layers'') \<and>
   build_config tokenizer_len file (Some (SizeStr ''1B5'')) tokenizer_file =
     Inl (UnboundLocalError ''num_hidden_layers'') \<and>
   build_config tokenizer_len file (Some (SizeStr ''3B'')) tokenizer_file =
     Inl (UnboundLocalError ''num_hidden_layers'') \<and>
   build_config tokenizer_len file (Some (SizeStr ''7B'')) tokenizer_file =
     Inl (UnboundLocalError ''num_hidden_layers'') \<and>
   build_config tokenizer_len file (Some (SizeStr ''14B'')) tokenizer_file =
     Inl (UnboundLocalError ''num_hidden_layers'')"
  by (simp add: build_config_def possible_sizes_eq)

text \<open>
  A \<^verbatim>\<open>ValueError\<close> is raised, for a given file name, exactly with a label that is not in
  the table, or without a size when no known label occurs in the file name.
\<close>

lemma build_config_ValueError_iff:
  "build_config tokenizer_len (Some file) size' tokenizer_file = Inl ValueError \<longleftrightarrow>
     (\<exists>label. size' = Some (SizeStr label) \<and> label \<notin> set possible_sizes) \<or>
     (size' = None \<and> (\<forall>label \<in> set possible_sizes. \<not> str_contains label file))"
proof (cases size')
  case None
  have "infer_size possible_sizes file = None \<longleftrightarrow>
      (\<forall>label \<in> set possible_sizes. \<not> str_contains label file)"
    by (auto simp: infer_size_find find_None_iff)
  with None show ?thesis
    by (auto simp: build_config_def dict_get_def split: option.splits)
next
  case (Some a)
  then show ?thesis
    by (cases a) (simp_all add: build_config_def)
qed

text \<open>
  Claim C6, evaluated on the code. The label \<^verbatim>\<open>430M\<close> is in the table, so neither error
  case of the claim applies, and the step raises all the same: \<^verbatim>\<open>UnboundLocalError\<close>.
\<close>

theorem build_config_raises_for_known_label:
  "''430M'' \<in> set possible_sizes \<and>
   build_config tokenizer_len (Some ''RWKV-4-Pile-430M-20220808-8066.pth'')
     (Some (SizeStr ''430M'')) None = Inl (UnboundLocalError ''num_hidden_layers'')"
  by (simp add: build_config_def possible_sizes_eq)

text \<open>
  Claim C2, as the code has it. The function looks at a tuple first: with a tuple the
  dimensions are the tuple's, whatever the file name. A label is looked at next, and
  the file name plays no part then. On the command line the tuple of
  \<^verbatim>\<open>--num_hidden_layers\<close> and \<^verbatim>\<open>--hidden_size\<close> is passed only without \<^verbatim>\<open>--size\<close>; with
  \<^verbatim>\<open>--size\<close> the label is passed and the two numbers are not used.
\<close>

theorem main_config_label_before_pair:
  "build_config tokenizer_len file (Some (SizeTuple nl hs)) tokenizer_file =
     Inr \<lparr>vocab_size = tokenizer_vocab_size tokenizer_len tokenizer_file,
          num_hidden_layers = nl, hidden_size = hs\<rparr> \<and>
   build_config tokenizer_len file (Some (SizeStr label)) tokenizer_file =
     build_config tokenizer_len None (Some (SizeStr label)) tokenizer_file \<and>
   (args_size a = None \<longrightarrow>
      main_config tokenizer_len a =
        Inr \<lparr>vocab_size = tokenizer_vocab_size tokenizer_len (args_tokenizer_file a),
             num_hidden_layers = args_num_hidden_layers a,
             hidden_size = args_hidden_size a\<rparr>) \<and>
   (args_size a = Some label \<longrightarrow>
      main_config tokenizer_len a =
        build_config tokenizer_len (args_checkpoint_file a) (Some (SizeStr label))
          (args_tokenizer_file a))"
  by (simp add: main_config_def main_size_def build_config_def)

text \<open>
  Without \<^verbatim>\<open>--size\<close> the defaults 12 and 256 give the configuration; with the unknown
  label \<^verbatim>\<open>999Z\<close> the same numbers are not used.
\<close>

theorem main_config_label_before_pair_witness:
  "args_size \<lparr>args_repo_id = None, args_checkpoint_file = None,
      args_model_file = Some ''model.pth'', args_output_dir = ''out'',
      args_tokenizer_file = None, args_size = None, args_hidden_size = 256,
      args_num_hidden_layers = 12\<rparr> = None \<and>
   main_config (\<lambda>f. 0) \<lparr>args_repo_id = None, args_checkpoint_file = None,
      args_model_file = Some ''model.pth'', args_output_dir = ''out'',
      args_tokenizer_file = None, args_size = None, args_hidden_size = 256,
      args_num_hidden_layers = 12\<rparr> =
     Inr \<lparr>vocab_size = 50277, num_hidden_layers = 12, hidden_size = 256\<rparr> \<and>
   args_size \<lparr>args_repo_id = None, args_checkpoint_file = None,
      args_model_file = Some ''model.pth'', args_output_dir = ''out'',
      args_tokenizer_file = None, args_size = Some ''999Z'', args_hidden_size = 256,
      args_num_hidden_layers = 12\<rparr> = Some ''999Z'' \<and>
   main_config (\<lambda>f. 0) \<lparr>args_repo_id = None, args_checkpoint_file = None,
      args_model_file = Some ''model.pth'', args_output_dir = ''out'',
      args_tokenizer_file = None, args_size = Some ''999Z'', args_hidden_size = 256,
      args_num_hidden_layers = 12\<rparr> = Inl ValueError"
proof -
  let ?a = "\<lparr>args_repo_id = None, args_checkpoint_file = None,
      args_model_file = Some ''model.pth'', args_output_dir = ''out'',
      args_tokenizer_file = None, args_size = None, args_hidden_size = 256,
      args_num_hidden_layers = 12\<rparr>"
  let ?b = "\<lparr>args_repo_id = None, args_checkpoint_file = None,
      args_model_file = Some ''model.pth'', args_output_dir = ''out'',
      args_tokenizer_file = None, args_size = Some ''999Z'', args_hidden_size = 256,
      args_num_hidden_layers = 12\<rparr>"
  have a: "args_size ?a = None" and b: "args_size ?b = Some ''999Z''"
    by simp_all
  have bad: "build_config (\<lambda>f. 0) None (Some (SizeStr ''999Z'')) None = Inl ValueError"
    by (simp add: build_config_def possible_sizes_eq)
  from main_config_label_before_pair [of "\<lambda>f. 0" None 12 256 None "''999Z''" "?a"]
    main_config_label_before_pair [of "\<lambda>f. 0" None 12 256 None "''999Z''" "?b"]
  show ?thesis
    using a b bad by (simp add: tokenizer_vocab_size_def)
qed

text \<open>
  Claim C2 as stated fails: with \<^verbatim>\<open>--size 430M --num_hidden_layers 6 --hidden_size 512\<close>
  the configuration does not get the dimensions 6 and 512, and with the label \<^verbatim>\<open>999Z\<close>
  the run ends with \<^verbatim>\<open>ValueError\<close> although both numbers are given.
\<close>

theorem main_config_pair_first_counterexample:
  "main_config (\<lambda>f. 0) \<lparr>args_repo_id = None,
      args_checkpoint_file = Some ''RWKV-4-Pile-430M-20220808-8066.pth'',
      args_model_file = None, args_output_dir = ''out'', args_tokenizer_file = None,
      args_size = Some ''430M'', args_hidden_size = 512, args_num_hidden_layers = 6\<rparr> \<noteq>
     Inr \<lparr>vocab_size = 50277, num_hidden_layers = 6, hidden_size = 512\<rparr> \<and>
   main_config (\<lambda>f. 0) \<lparr>args_repo_id = None,
      args_checkpoint_file = Some ''RWKV-4-Pile-430M-20220808-8066.pth'',
      args_model_file = None, args_output_dir = ''out'', args_tokenizer_file = None,
      args_size = Some ''999Z'', args_hidden_size = 512, args_num_hidden_layers = 6\<rparr> =
     Inl ValueError"
  by (simp add: main_config_def main_size_def build_config_def possible_sizes_eq)

text \<open>
  Claim C10. When a known label occurs in the file name, the inferred size is the first
  label of the table order \<^verbatim>\<open>169M\<close>, \<^verbatim>\<open>430M\<close>, \<^verbatim>\<open>1B5\<close>, \<^verbatim>\<open>3B\<close>, \<^verbatim>\<open>7B\<close>, \<^verbatim>\<open>14B\<close> that occurs in
  the name: it occurs in the name, no earlier label of the table does, and it is not
  later in the table than any label that occurs. Where the labels stand in the name
  plays no part.
\<close>

theorem infer_size_first_in_table_order:
  assumes "i < length possible_sizes" and "str_contains (possible_sizes ! i) file"
  shows "possible_sizes = [''169M'', ''430M'', ''1B5'', ''3B'', ''7B'', ''14B''] \<and>
         (\<exists>k\<le>i. infer_size possible_sizes file = Some (possible_sizes ! k) \<and>
            str_contains (possible_sizes ! k) file \<and>
            (\<forall>j<k. \<not> str_contains (possible_sizes ! j) file))"
proof -
  let ?P = "\<lambda>c. str_contains c file"
  have "possible_sizes ! i \<in> set possible_sizes"
    using assms(1) by simp
  then have "find ?P possible_sizes \<noteq> None"
    using assms(2) by (auto simp: find_None_iff)
  then obtain x where x: "find ?P possible_sizes = Some x"
    by blast
  then obtain k where k: "k < length possible_sizes" "?P (possible_sizes ! k)"
      "x = possible_sizes ! k" "\<forall>j<k. \<not> ?P (possible_sizes ! j)"
    unfolding find_Some_iff by blast
  have "k \<le> i"
    using k(4) assms(2) by (meson not_le)
  then have "\<exists>k\<le>i. infer_size possible_sizes file = Some (possible_sizes ! k) \<and>
            str_contains (possible_sizes ! k) file \<and>
            (\<forall>j<k. \<not> str_contains (possible_sizes ! j) file)"
    using x k by (auto simp: infer_size_find)
  then show ?thesis
    using possible_sizes_eq by blast
qed

text \<open>
  The name \<^verbatim>\<open>x-14B-169M.pth\<close> contains the last label of the table before the first one;
  the first one is inferred.
\<close>

theorem infer_size_first_in_table_order_witness:
  "5 < length possible_sizes \<and> str_contains (possible_sizes ! 5) ''x-14B-169M.pth'' \<and>
   possible_sizes ! 5 = ''14B'' \<and>
   infer_size possible_sizes ''x-14B-169M.pth'' = Some ''169M''"
proof -
  have a: "5 < length possible_sizes"
    by (simp add: possible_sizes_eq)
  have b: "str_contains (possible_sizes ! 5) ''x-14B-169M.pth''"
    by code_simp
  have c: "infer_size possible_sizes ''x-14B-169M.pth'' = Some ''169M''"
    by code_simp
  have d: "possible_sizes ! 5 = ''14B''"
    by (simp add: possible_sizes_eq)
  from infer_size_first_in_table_order [OF a b] show ?thesis
    using a b c d by simp
qed

subsection \<open>The index file\<close>

lemma sort_key_fst_unique:
  fixes xs ys :: "(string, 'v) dict"
  assumes "distinct (map fst xs)" and "distinct (map fst ys)" and "set xs = set ys"
  shows "sort_key fst xs = sort_key fst ys"
proof (rule map_sorted_distinct_set_unique [where f = fst])
  show "inj_on fst (set (sort_key fst xs) \<union> set (sort_key fst ys))"
    using assms by (simp add: distinct_map)
  show "sorted (map fst (sort_key fst xs))" and "sorted (map fst (sort_key fst ys))"
    by (rule sorted_sort_key)+
  show "distinct (map fst (sort_key fst xs))"
    using assms(1) by (simp add: distinct_map)
  show "distinct (map fst (sort_key fst ys))"
    using assms(2) by (simp add: distinct_map)
  show "set (sort_key fst xs) = set (sort_key fst ys)"
    using assms(3) by simp
qed

lemma json_object_order:
  assumes "distinct (map fst xs)" and "distinct (map fst ys)" and "set xs = set ys"
  shows "json_object level xs = json_object level ys"
proof -
  have "xs = [] \<longleftrightarrow> ys = []"
    using assms(3) by (metis set_empty)
  then show ?thesis
    using sort_key_fst_unique [OF assms] by (simp add: json_object_def)
qed

lemma json_dumps_index_frame:
  "json_dumps_index i =
     ''{'' @ [CHR 0x0A] @
     ''  '' @ json_string ''metadata'' @ '': {'' @ [CHR 0x0A] @
     ''    '' @ json_string ''total_size'' @ '': '' @ show_int (total_size i) @ [CHR 0x0A] @
     ''  },'' @ [CHR 0x0A] @
     ''  '' @ json_string ''weight_map'' @ '': '' @
     json_object 1 (map (\<lambda>(k, f). (k, json_string f)) (weight_map i)) @ [CHR 0x0A] @ ''}''"
  by (simp add: json_dumps_index_def json_object_def eval_nat_numeral)

lemma insort_key_fst_map:
  fixes xs :: "(string, 'a) dict"
  shows "insort_key fst (k, g v) (map (\<lambda>(k, f). (k, g f)) xs) =
    map (\<lambda>(k, f). (k, g f)) (insort_key fst (k, v) xs)"
  by (induction xs) auto

lemma sort_key_fst_map:
  fixes xs :: "(string, 'a) dict"
  shows "sort_key fst (map (\<lambda>(k, f). (k, g f)) xs) =
    map (\<lambda>(k, f). (k, g f)) (sort_key fst xs)"
  by (induction xs) (auto simp: insort_key_fst_map)

lemma json_object_weight_map:
  assumes "wm \<noteq> []"
  shows "json_object 1 (map (\<lambda>(k, f). (k, json_string f)) wm) =
     ''{'' @ [CHR 0x0A] @
     join ('','' @ [CHR 0x0A])
       (map (\<lambda>(k, f). ''    '' @ json_string k @ '': '' @ json_string f) (sort_key fst wm)) @
     [CHR 0x0A] @ ''  }''"
proof -
  let ?F = "\<lambda>(k, f). (k, json_string f)"
  let ?L = "\<lambda>(k, v). replicate (2 * Suc 1) CHR '' '' @ json_string k @ '': '' @ v"
  have lines: "map ?L (map ?F (sort_key fst wm)) =
        map (\<lambda>(k, f). ''    '' @ json_string k @ '': '' @ json_string f) (sort_key fst wm)"
    by (simp add: eval_nat_numeral case_prod_unfold)
  have close: "replicate (2 * 1) CHR '' '' @ ''}'' = ''  }''"
    by (simp add: eval_nat_numeral)
  have "map ?F wm \<noteq> []"
    using assms by simp
  then have "json_object 1 (map ?F wm) =
      ''{'' @ [CHR 0x0A] @ join ('','' @ [CHR 0x0A]) (map ?L (sort_key fst (map ?F wm))) @
      [CHR 0x0A] @ replicate (2 * 1) CHR '' '' @ ''}''"
    by (simp only: json_object_def if_False)
  then show ?thesis
    by (simp only: sort_key_fst_map lines close)
qed

text \<open>
  Claim C8. The content of the index file is the index as a JSON object followed by one
  newline: the members \<^verbatim>\<open>metadata\<close> and \<^verbatim>\<open>weight_map\<close> in this order, indented by two
  spaces, their own members by four, the parameter names of the weight map in ascending
  order, and the closing brace before the final newline. Two indexes with the same total
  size and the same entries of the weight map, in whatever order they were inserted, give
  the same content.
\<close>

theorem index_file_content_sorted_indented:
  assumes "distinct (map fst (weight_map a))" and "distinct (map fst (weight_map b))"
    and "set (weight_map a) = set (weight_map b)" and "total_size a = total_size b"
  shows "index_file_content (Some a) = index_file_content (Some b) \<and>
     index_file_content (Some a) =
       Some (''{'' @ [CHR 0x0A] @
         ''  '' @ json_string ''metadata'' @ '': {'' @ [CHR 0x0A] @
         ''    '' @ json_string ''total_size'' @ '': '' @ show_int (total_size a) @
           [CHR 0x0A] @
         ''  },'' @ [CHR 0x0A] @
         ''  '' @ json_string ''weight_map'' @ '': '' @
         json_object 1 (map (\<lambda>(k, f). (k, json_string f)) (weight_map a)) @ [CHR 0x0A] @
         ''}'' @ [CHR 0x0A]) \<and>
     (weight_map a \<noteq> [] \<longrightarrow>
        json_object 1 (map (\<lambda>(k, f). (k, json_string f)) (weight_map a)) =
          ''{'' @ [CHR 0x0A] @
          join ('','' @ [CHR 0x0A])
            (map (\<lambda>(k, f). ''    '' @ json_string k @ '': '' @ json_string f)
               (sort_key fst (weight_map a))) @
          [CHR 0x0A] @ ''  }'') \<and>
     sorted (map fst (sort_key fst (weight_map a)))"
proof -
  let ?f = "\<lambda>(k, f). (k, json_string f)"
  have keys: "map fst (map ?f xs) = map fst xs" for xs :: "(string, string) dict"
    by (induction xs) auto
  have "json_object 1 (map ?f (weight_map a)) = json_object 1 (map ?f (weight_map b))"
  proof (rule json_object_order)
    show "distinct (map fst (map ?f (weight_map a)))"
      using assms(1) by (simp only: keys)
    show "distinct (map fst (map ?f (weight_map b)))"
      using assms(2) by (simp only: keys)
    show "set (map ?f (weight_map a)) = set (map ?f (weight_map b))"
      using assms(3) by simp
  qed
  then have same: "index_file_content (Some a) = index_file_content (Some b)"
    using assms(4) by (simp add: index_file_content_def json_dumps_index_def)
  have frame: "index_file_content (Some a) =
       Some (''{'' @ [CHR 0x0A] @
         ''  '' @ json_string ''metadata'' @ '': {'' @ [CHR 0x0A] @
         ''    '' @ json_string ''total_size'' @ '': '' @ show_int (total_size a) @
           [CHR 0x0A] @
         ''  },'' @ [CHR 0x0A] @
         ''  '' @ json_string ''weight_map'' @ '': '' @
         json_object 1 (map (\<lambda>(k, f). (k, json_string f)) (weight_map a)) @ [CHR 0x0A] @
         ''}'' @ [CHR 0x0A])"
    by (simp add: index_file_content_def json_dumps_index_frame)
  have "sorted (map fst (sort_key fst (weight_map a)))"
    by (rule sorted_sort_key)
  with same frame json_object_weight_map [of "weight_map a"] show ?thesis
    by blast
qed

text \<open>
  An index with two entries, inserted in either order, gives the same file: the two
  names in ascending order.
\<close>

theorem index_file_content_sorted_indented_witness:
  "distinct (map fst (weight_map \<lparr>total_size = 1234, weight_map =
      [(''rwkv.embeddings.weight'', ''model-00001-of-00002.bin''),
       (''head.weight'', ''model-00002-of-00002.bin'')]\<rparr>)) \<and>
   distinct (map fst (weight_map \<lparr>total_size = 1234, weight_map =
      [(''head.weight'', ''model-00002-of-00002.bin''),
       (''rwkv.embeddings.weight'', ''model-00001-of-00002.bin'')]\<rparr>)) \<and>
   index_file_content (Some \<lparr>total_size = 1234, weight_map =
      [(''head.weight'', ''model-00002-of-00002.bin''),
       (''rwkv.embeddings.weight'', ''model-00001-of-00002.bin'')]\<rparr>) =
     index_file_content (Some \<lparr>total_size = 1234, weight_map =
      [(''rwkv.embeddings.weight'', ''model-00001-of-00002.bin''),
       (''head.weight'', ''model-00002-of-00002.bin'')]\<rparr>) \<and>
   index_file_content (Some \<lparr>total_size = 1234, weight_map =
      [(''rwkv.embeddings.weight'', ''model-00001-of-00002.bin''),
       (''head.weight'', ''model-00002-of-00002.bin'')]\<rparr>) =
     Some (''{'' @ [CHR 0x0A] @
       ''  '' @ json_string ''metadata'' @ '': {'' @ [CHR 0x0A] @
       ''    '' @ json_string ''total_size'' @ '': 1234'' @ [CHR 0x0A] @
       ''  },'' @ [CHR 0x0A] @
       ''  '' @ json_string ''weight_map'' @ '': {'' @ [CHR 0x0A] @
       ''    '' @ json_string ''head.weight'' @ '': '' @
         json_string ''model-00002-of-00002.bin'' @ '','' @ [CHR 0x0A] @
       ''    '' @ json_string ''rwkv.embeddings.weight'' @ '': '' @
         json_string ''model-00001-of-00002.bin'' @ [CHR 0x0A] @
       ''  }'' @ [CHR 0x0A] @ ''}'' @ [CHR 0x0A])"
proof -
  let ?a = "\<lparr>total_size = 1234, weight_map =
      [(''head.weight'', ''model-00002-of-00002.bin''),
       (''rwkv.embeddings.weight'', ''model-00001-of-00002.bin'')]\<rparr>"
  let ?b = "\<lparr>total_size = 1234, weight_map =
      [(''rwkv.embeddings.weight'', ''model-00001-of-00002.bin''),
       (''head.weight'', ''model-00002-of-00002.bin'')]\<rparr>"
  have a: "distinct (map fst (weight_map ?a))" and b: "distinct (map fst (weight_map ?b))"
    by simp_all
  have s: "set (weight_map ?a) = set (weight_map ?b)"
    by auto
  have t: "total_size ?a = total_size ?b"
    by simp
  have run: "index_file_content (Some ?b) =
     Some (''{'' @ [CHR 0x0A] @
       ''  '' @ json_string ''metadata'' @ '': {'' @ [CHR 0x0A] @
       ''    '' @ json_string ''total_size'' @ '': 1234'' @ [CHR 0x0A] @
       ''  },'' @ [CHR 0x0A] @
       ''  '' @ json_string ''weight_map'' @ '': {'' @ [CHR 0x0A] @
       ''    '' @ json_string ''head.weight'' @ '': '' @
         json_string ''model-00002-of-00002.bin'' @ '','' @ [CHR 0x0A] @
       ''    '' @ json_string ''rwkv.embeddings.weight'' @ '': '' @
         json_string ''model-00001-of-00002.bin'' @ [CHR 0x0A] @
       ''  }'' @ [CHR 0x0A] @ ''}'' @ [CHR 0x0A])"
    by code_simp
  from index_file_content_sorted_indented [OF a b s t]
  have "index_file_content (Some ?a) = index_file_content (Some ?b)"
    by blast
  with a b run show ?thesis
    by blast
qed

end
